theory Spec2Isabelle
  imports Main
begin

section \<open>Strings and the two pattern tests of the policy code\<close>

text \<open>
  A JavaScript string is modelled as a \<^typ>\<open>string\<close>, one \<^typ>\<open>char\<close> per code unit;
  \<open>length\<close> is the \<open>.length\<close> of the source.
\<close>

text \<open>\<open>s.startsWith(p)\<close>, used to spell out \<open>s.includes(p)\<close>.\<close>

fun starts_with :: "string \<Rightarrow> string \<Rightarrow> bool" where
  "starts_with s [] = True"
| "starts_with [] (p # ps) = False"
| "starts_with (c # cs) (p # ps) = (c = p \<and> starts_with cs ps)"

text \<open>\<open>command.includes(pattern)\<close>: a case-sensitive substring test.\<close>

fun str_includes :: "string \<Rightarrow> string \<Rightarrow> bool" where
  "str_includes [] p = (p = [])"
| "str_includes (c # cs) p = (starts_with (c # cs) p \<or> str_includes cs p)"

text \<open>
  The regular expression \<open>new RegExp(`\\b${deniedPattern}\\b`, 'i')\<close>. The word characters
  of \<open>\b\<close> (no \<open>u\<close> flag) are the ASCII letters, the digits and the underscore.
\<close>

definition is_word_char :: "char \<Rightarrow> bool" where
  "is_word_char c \<longleftrightarrow>
     c \<in> set (''abcdefghijklmnopqrstuvwxyz'' @ ''ABCDEFGHIJKLMNOPQRSTUVWXYZ'' @ ''0123456789_'')"

text \<open>
  Case folding of the \<open>i\<close> flag on ASCII: a lower-case letter is compared through its
  upper-case form, every other code unit through itself.
\<close>

definition canonicalize :: "char \<Rightarrow> char" where
  "canonicalize c =
     (case map_of (zip ''abcdefghijklmnopqrstuvwxyz'' ''ABCDEFGHIJKLMNOPQRSTUVWXYZ'') c of
        Some u \<Rightarrow> u
      | None \<Rightarrow> c)"

text \<open>
  \<open>ci_prefix prev p s\<close>: the literal characters \<open>p\<close> match at the head of \<open>s\<close> ignoring
  case; the result is the word-character status of the last code unit consumed (\<open>prev\<close> when
  \<open>p\<close> is empty) and the rest of \<open>s\<close>.
\<close>

fun ci_prefix :: "bool \<Rightarrow> string \<Rightarrow> string \<Rightarrow> (bool \<times> string) option" where
  "ci_prefix prev [] s = Some (prev, s)"
| "ci_prefix prev (p # ps) [] = None"
| "ci_prefix prev (p # ps) (c # cs) =
     (if canonicalize c = canonicalize p then ci_prefix (is_word_char c) ps cs else None)"

text \<open>\<open>\b\<close> between a code unit with word status \<open>prev\<close> and the head of \<open>rest\<close>.\<close>

definition word_boundary :: "bool \<Rightarrow> string \<Rightarrow> bool" where
  "word_boundary prev rest \<longleftrightarrow>
     prev \<noteq> (case rest of [] \<Rightarrow> False | c # _ \<Rightarrow> is_word_char c)"

definition match_here :: "bool \<Rightarrow> string \<Rightarrow> string \<Rightarrow> bool" where
  "match_here prev p s \<longleftrightarrow>
     word_boundary prev s \<and>
     (case ci_prefix prev p s of
        None \<Rightarrow> False
      | Some (last_word, rest) \<Rightarrow> word_boundary last_word rest)"

text \<open>\<open>regex.test(command)\<close> tries every start position from the left.\<close>

fun word_scan :: "bool \<Rightarrow> string \<Rightarrow> string \<Rightarrow> bool" where
  "word_scan prev p [] = match_here prev p []"
| "word_scan prev p (c # cs) = (match_here prev p (c # cs) \<or> word_scan (is_word_char c) p cs)"

text \<open>
  A pattern is interpolated into the regular expression unescaped. It is \<open>plain\<close> when it
  holds no character of the regular-expression syntax and only ASCII: then the expression is
  the literal word between two \<open>\b\<close>. A pattern without backslash and bracket whose
  parentheses do not pair up is no regular expression: the constructor throws a SyntaxError.
  What the engine does on the remaining patterns is a parameter of the model.
\<close>

definition plain :: "string \<Rightarrow> bool" where
  "plain p \<longleftrightarrow> (\<forall>c \<in> set p. (of_char c :: nat) < 128 \<and> c \<notin> set (CHR 0x5C # ''^$.*+?()[]{}|''))"

definition group_mismatch :: "string \<Rightarrow> bool" where
  "group_mismatch p \<longleftrightarrow>
     CHR 0x5C \<notin> set p \<and> CHR ''['' \<notin> set p \<and>
     count_list p CHR ''('' \<noteq> count_list p CHR '')''"

text \<open>
  The exceptions the code lets pass: the SyntaxError of the \<open>RegExp\<close> constructor, and what
  \<open>exec\<close> throws before it returns, \<open>ERR_INVALID_ARG_VALUE\<close> for a command line it refuses
  and the error of a spawn that fails at once, named by its errno.
\<close>

datatype js_error = SyntaxError | InvalidArgValue | SpawnError string

type_synonym regex_engine = "string \<Rightarrow> string \<Rightarrow> bool option"

definition regex_word_test :: "regex_engine \<Rightarrow> string \<Rightarrow> string \<Rightarrow> js_error + bool" where
  "regex_word_test engine p command =
     (if plain p then Inr (word_scan False p command)
      else if group_mismatch p then Inl SyntaxError
      else (case engine p command of None \<Rightarrow> Inl SyntaxError | Some b \<Rightarrow> Inr b))"

section \<open>The approval configuration and the policy functions\<close>

text \<open>
  \<open>ApprovalConfigSchema\<close> (shell/config.ts): the active configuration is a module variable
  \<open>activeConfig\<close>; every function below takes it as an argument.
\<close>

record AutorunMode =
  enabled :: bool
  allowlist :: "string list"
  denylist :: "string list"
  allow_all_other_commands :: bool

record ApprovalConfig =
  autorun_mode :: AutorunMode

definition defaultConfig :: ApprovalConfig where
  "defaultConfig =
     \<lparr>autorun_mode = \<lparr>enabled = False, allowlist = [], denylist = [],
        allow_all_other_commands = False\<rparr>\<rparr>"

text \<open>
  The loop \<open>for (const deniedPattern of config.denylist)\<close> over the word-bounded regular
  expressions, as it stands both in \<open>shouldAutoApproveCommand\<close> and in \<open>isCommandDenied\<close>
  (exec.ts line 24): it returns at the first pattern that matches, and a pattern the
  constructor rejects ends it with the exception.
\<close>

fun denylist_word_hit :: "regex_engine \<Rightarrow> string list \<Rightarrow> string \<Rightarrow> js_error + bool" where
  "denylist_word_hit engine [] command = Inr False"
| "denylist_word_hit engine (p # ps) command =
     (case regex_word_test engine p command of
        Inl e \<Rightarrow> Inl e
      | Inr True \<Rightarrow> Inr True
      | Inr False \<Rightarrow> denylist_word_hit engine ps command)"

text \<open>The scans with \<open>command.includes(pattern)\<close>.\<close>

definition includes_any :: "string list \<Rightarrow> string \<Rightarrow> bool" where
  "includes_any ps command = list_ex (str_includes command) ps"

text \<open>\<open>shouldAutoApproveCommand\<close> of shell/config.ts with the regular expressions.\<close>

definition shouldAutoApproveCommand ::
  "regex_engine \<Rightarrow> ApprovalConfig \<Rightarrow> string \<Rightarrow> js_error + bool" where
  "shouldAutoApproveCommand engine activeConfig command =
     (let config = autorun_mode activeConfig in
      if \<not> enabled config then Inr False
      else (case denylist_word_hit engine (denylist config) command of
              Inl e \<Rightarrow> Inl e
            | Inr True \<Rightarrow> Inr False
            | Inr False \<Rightarrow>
                if allow_all_other_commands config then Inr True
                else if includes_any (allowlist config) command then Inr True
                else Inr False))"

text \<open>\<open>!shouldAutoApproveCommand(command)\<close>.\<close>

definition not_approved ::
  "regex_engine \<Rightarrow> ApprovalConfig \<Rightarrow> string \<Rightarrow> js_error + bool" where
  "not_approved engine activeConfig command =
     (case shouldAutoApproveCommand engine activeConfig command of
        Inl e \<Rightarrow> Inl e
      | Inr b \<Rightarrow> Inr (\<not> b))"

text \<open>
  \<open>isCommandDenied\<close> as exec.ts has it at line 24: the denylist is scanned with the
  word-bounded regular expressions whatever \<open>enabled\<close> says.
\<close>

definition isCommandDenied ::
  "regex_engine \<Rightarrow> ApprovalConfig \<Rightarrow> string \<Rightarrow> js_error + bool" where
  "isCommandDenied engine activeConfig command =
     (let config = autorun_mode activeConfig in
      case denylist_word_hit engine (denylist config) command of
        Inl e \<Rightarrow> Inl e
      | Inr True \<Rightarrow> Inr True
      | Inr False \<Rightarrow>
          if enabled config \<and> allow_all_other_commands config then Inr False
          else if \<not> enabled config then Inr False
          else not_approved engine activeConfig command)"

text \<open>
  \<open>isCommandDenied\<close> as exec.ts has it at line 218, above the \<open>executeCommand\<close> that
  knows \<open>require_user_approval\<close>: with the policy disabled the denylist is tested with
  \<open>includes\<close>.
\<close>

definition isCommandDenied_includes ::
  "regex_engine \<Rightarrow> ApprovalConfig \<Rightarrow> string \<Rightarrow> js_error + bool" where
  "isCommandDenied_includes engine activeConfig command =
     (let config = autorun_mode activeConfig in
      if \<not> enabled config then Inr (includes_any (denylist config) command)
      else not_approved engine activeConfig command)"

section \<open>The execution engine (shell/exec.ts, \<open>executeCommand\<close> at line 243)\<close>

record RunTerminalCmdArgs =
  command :: string
  explanation :: string
  is_background :: bool
  require_user_approval :: bool

text \<open>
  \<open>err.code\<close> is declared a number and compared with strings; \<open>exitCode\<close> receives
  \<open>err.code ?? 1\<close>, so both hold either.
\<close>

datatype js_code = CodeNum int | CodeStr string

record ExecException =
  err_message :: string
  err_code :: "js_code option"
  err_signal :: "string option"

record CommandExecSuccessResult =
  result_stdout :: string
  result_stderr :: string
  exitCode :: js_code
  result_truncated :: "bool option"

datatype error_details =
  CommandDetails string
| ExecDetails string "js_code option" "string option"

record CommandExecErrorResult =
  message :: string
  code :: string
  details :: error_details

datatype CommandExecOutcome =
  Success CommandExecSuccessResult
| Waiting
| Error CommandExecErrorResult

definition MAX_BUFFER_SIZE :: nat where
  "MAX_BUFFER_SIZE = 2 * 1024 * 1024"

text \<open>The three variables \<open>stdout\<close>, \<open>stderr\<close> and \<open>truncated\<close> of the promise body.\<close>

record capture =
  stdout :: string
  stderr :: string
  truncated :: bool

definition no_capture :: capture where
  "no_capture = \<lparr>stdout = [], stderr = [], truncated = False\<rparr>"

text \<open>
  The \<open>'data'\<close> listeners. \<open>data.substring(0, remainingSpace)\<close> is \<open>take\<close>; a negative
  \<open>remainingSpace\<close> would count as 0, as the subtraction on \<^typ>\<open>nat\<close> does.
\<close>

definition on_stdout :: "capture \<Rightarrow> string \<Rightarrow> capture" where
  "on_stdout c d =
     (if length (stdout c) + length d > MAX_BUFFER_SIZE then
        c\<lparr>stdout := stdout c @ take (MAX_BUFFER_SIZE - length (stdout c)) d, truncated := True\<rparr>
      else if \<not> truncated c then c\<lparr>stdout := stdout c @ d\<rparr>
      else c)"

definition on_stderr :: "capture \<Rightarrow> string \<Rightarrow> capture" where
  "on_stderr c d =
     (if length (stderr c) + length d > MAX_BUFFER_SIZE then
        c\<lparr>stderr := stderr c @ take (MAX_BUFFER_SIZE - length (stderr c)) d, truncated := True\<rparr>
      else if \<not> truncated c then c\<lparr>stderr := stderr c @ d\<rparr>
      else c)"

text \<open>What the child process does, as the listeners see it.\<close>

datatype proc_event = StdoutData string | StderrData string

datatype proc_end = CloseEvent "int option" | ErrorEvent ExecException

text \<open>
  \<open>spawn_failure\<close> is the errno with which the spawn fails inside the call of \<open>exec\<close>
  (\<open>E2BIG\<close> for a command line the system does not take), \<open>None\<close> when the call
  returns; failures \<open>exec\<close> reports later reach the callback or the \<open>'error'\<close> listener.
\<close>

record proc_run =
  spawn_failure :: "string option"
  data_events :: "proc_event list"
  ending :: "proc_end option"

text \<open>
  What \<open>exec(file, ...)\<close> throws instead of returning: it refuses an empty command line
  and one that holds a NUL, and it passes on a spawn failure.
\<close>

definition exec_throws :: "string \<Rightarrow> proc_run \<Rightarrow> js_error option" where
  "exec_throws file run =
     (if file = [] \<or> CHR 0x00 \<in> set file then Some InvalidArgValue
      else (case spawn_failure run of
              Some errno \<Rightarrow> Some (SpawnError errno)
            | None \<Rightarrow> None))"

fun on_data :: "capture \<Rightarrow> proc_event \<Rightarrow> capture" where
  "on_data c (StdoutData d) = on_stdout c d"
| "on_data c (StderrData d) = on_stderr c d"

definition feed :: "capture \<Rightarrow> proc_event list \<Rightarrow> capture" where
  "feed c es = foldl on_data c es"

text \<open>The \<open>'close'\<close> listener.\<close>

definition on_close :: "capture \<Rightarrow> int option \<Rightarrow> CommandExecOutcome" where
  "on_close c exit_status =
     Success \<lparr>result_stdout = stdout c, result_stderr = stderr c,
        exitCode = CodeNum (case exit_status of None \<Rightarrow> - 1 | Some n \<Rightarrow> n),
        result_truncated = (if truncated c then Some True else None)\<rparr>"

text \<open>
  The \<open>'error'\<close> listener. \<open>MAX_BUFFER_SIZE / 1024 / 1024\<close> prints as 2 and
  \<open>EXEC_TIMEOUT / 1000\<close> as 30.
\<close>

definition max_buffer_message :: string where
  "max_buffer_message = ''Command output exceeded 2MB buffer limit.''"

definition timeout_message :: string where
  "timeout_message = ''Command timed out after 30 seconds.''"

definition on_error :: "capture \<Rightarrow> string \<Rightarrow> ExecException \<Rightarrow> CommandExecOutcome" where
  "on_error c cmd e =
     (let errorDetails = ExecDetails cmd (err_code e) (err_signal e) in
      if err_signal e = Some ''SIGTERM''
         \<or> err_code e = Some (CodeStr ''ERR_CHILD_PROCESS_STDIO_MAXBUFFER'') then
        (let errorMsgSuffix = CHR 0x0A # ''ERROR: '' @ max_buffer_message;
             kept = (if length (stderr c) + length errorMsgSuffix > MAX_BUFFER_SIZE
                     then take (MAX_BUFFER_SIZE - length errorMsgSuffix) (stderr c)
                     else stderr c)
         in Success \<lparr>result_stdout = stdout c, result_stderr = kept @ errorMsgSuffix,
              exitCode = (case err_code e of None \<Rightarrow> CodeNum 1 | Some k \<Rightarrow> k),
              result_truncated = Some True\<rparr>)
      else if err_code e = Some (CodeStr ''ETIMEDOUT'') \<or> err_signal e = Some ''SIGKILL'' then
        Error \<lparr>message = timeout_message, code = ''timeout'', details = errorDetails\<rparr>
      else
        Error \<lparr>message = ''Command failed: '' @ err_message e, code = ''exec_error'',
          details = errorDetails\<rparr>)"

text \<open>
  The foreground promise: the data listeners run on every chunk, the first of \<open>'close'\<close> and
  \<open>'error'\<close> resolves it. \<open>None\<close>: neither ever fires and the promise stays pending.
\<close>

definition foreground :: "string \<Rightarrow> proc_run \<Rightarrow> CommandExecOutcome option" where
  "foreground cmd run =
     (case ending run of
        None \<Rightarrow> None
      | Some (CloseEvent exit_status) \<Rightarrow> Some (on_close (feed no_capture (data_events run)) exit_status)
      | Some (ErrorEvent e) \<Rightarrow> Some (on_error (feed no_capture (data_events run)) cmd e))"

text \<open>
  The result of \<open>executeCommand\<close>: what the promise resolves with (\<open>None\<close> when it never
  does) and the command lines handed to \<open>exec\<close>.
\<close>

record exec_result =
  outcome :: "CommandExecOutcome option"
  spawned :: "string list"

definition security_violation :: "string \<Rightarrow> CommandExecOutcome" where
  "security_violation cmd =
     Error \<lparr>message = ''Command is denied by security rules'', code = ''security_violation'',
       details = CommandDetails cmd\<rparr>"

definition background_success :: CommandExecSuccessResult where
  "background_success =
     \<lparr>result_stdout = [], result_stderr = [], exitCode = CodeNum 0, result_truncated = Some False\<rparr>"

text \<open>
  Lines 288 to 393: the background branch, then the foreground promise. Neither call of
  \<open>exec\<close> stands in a \<open>try\<close>: what it throws leaves \<open>executeCommand\<close>.
\<close>

definition launch :: "RunTerminalCmdArgs \<Rightarrow> proc_run \<Rightarrow> js_error + exec_result" where
  "launch params run =
     (if is_background params then
        (case exec_throws (command params @ '' &'') run of
           Some e \<Rightarrow> Inl e
         | None \<Rightarrow>
             Inr \<lparr>outcome = Some (Success background_success),
                  spawned = [command params @ '' &'']\<rparr>)
      else
        (case exec_throws (command params) run of
           Some e \<Rightarrow> Inl e
         | None \<Rightarrow>
             Inr \<lparr>outcome = foreground (command params) run, spawned = [command params]\<rparr>))"

definition executeCommand ::
  "regex_engine \<Rightarrow> ApprovalConfig \<Rightarrow> RunTerminalCmdArgs \<Rightarrow> proc_run \<Rightarrow> js_error + exec_result" where
  "executeCommand engine activeConfig params run =
     (case isCommandDenied_includes engine activeConfig (command params) of
        Inl e \<Rightarrow> Inl e
      | Inr True \<Rightarrow>
          if \<not> require_user_approval params then
            Inr \<lparr>outcome = Some (security_violation (command params)), spawned = []\<rparr>
          else Inr \<lparr>outcome = Some Waiting, spawned = []\<rparr>
      | Inr False \<Rightarrow>
          if require_user_approval params then
            (case shouldAutoApproveCommand engine activeConfig (command params) of
               Inl e \<Rightarrow> Inl e
             | Inr True \<Rightarrow> launch params run
             | Inr False \<Rightarrow> Inr \<lparr>outcome = Some Waiting, spawned = []\<rparr>)
          else launch params run)"

section \<open>JSON values and the configuration reload (shell/config.ts)\<close>

text \<open>
  The values \<open>JSON.parse\<close> returns. Numbers are kept as integers: the code below only
  tests them for being zero. An object lists its keys once each.
\<close>

datatype json =
  JNull
| JBool bool
| JNum int
| JStr string
| JArr "json list"
| JObj "(string \<times> json) list"

text \<open>\<open>z.boolean().default(d)\<close> on an object key: an absent key takes the default.\<close>

fun boolean_default :: "bool \<Rightarrow> json option \<Rightarrow> bool option" where
  "boolean_default d None = Some d"
| "boolean_default d (Some (JBool b)) = Some b"
| "boolean_default d (Some _) = None"

fun string_of_json :: "json \<Rightarrow> string option" where
  "string_of_json (JStr s) = Some s"
| "string_of_json _ = None"

fun strings_of_json :: "json list \<Rightarrow> string list option" where
  "strings_of_json [] = Some []"
| "strings_of_json (j # js) =
     (case string_of_json j of
        None \<Rightarrow> None
      | Some s \<Rightarrow> (case strings_of_json js of None \<Rightarrow> None | Some ss \<Rightarrow> Some (s # ss)))"

text \<open>\<open>z.array(z.string()).default([])\<close>.\<close>

fun string_array_default :: "json option \<Rightarrow> string list option" where
  "string_array_default None = Some []"
| "string_array_default (Some (JArr js)) = strings_of_json js"
| "string_array_default (Some _) = None"

text \<open>
  \<open>ApprovalConfigSchema.safeParse\<close>: \<open>None\<close> when \<open>success\<close> is false, otherwise the
  \<open>data\<close>. Keys the schema does not name are dropped.
\<close>

definition autorun_mode_safeParse :: "json \<Rightarrow> AutorunMode option" where
  "autorun_mode_safeParse j =
     (case j of
        JObj fs \<Rightarrow>
          (case (boolean_default False (map_of fs ''enabled''),
                 string_array_default (map_of fs ''allowlist''),
                 string_array_default (map_of fs ''denylist''),
                 boolean_default False (map_of fs ''allow_all_other_commands'')) of
             (Some e, Some al, Some dl, Some ao) \<Rightarrow>
               Some \<lparr>enabled = e, allowlist = al, denylist = dl, allow_all_other_commands = ao\<rparr>
           | _ \<Rightarrow> None)
      | _ \<Rightarrow> None)"

definition ApprovalConfigSchema_safeParse :: "json \<Rightarrow> ApprovalConfig option" where
  "ApprovalConfigSchema_safeParse j =
     (case j of
        JObj fs \<Rightarrow>
          (case map_of fs ''autorun_mode'' of
             None \<Rightarrow> None
           | Some m \<Rightarrow>
               (case autorun_mode_safeParse m of
                  None \<Rightarrow> None
                | Some a \<Rightarrow> Some \<lparr>autorun_mode = a\<rparr>))
      | _ \<Rightarrow> None)"

text \<open>
  \<open>setConfigFromJson\<close>: the new value of \<open>activeConfig\<close>. \<open>JSON.parse\<close> is a parameter,
  \<open>None\<close> where it throws; the \<open>catch\<close> only logs.
\<close>

definition setConfigFromJson ::
  "(string \<Rightarrow> json option) \<Rightarrow> string \<Rightarrow> ApprovalConfig \<Rightarrow> ApprovalConfig" where
  "setConfigFromJson JSON_parse jsonString activeConfig =
     (case JSON_parse jsonString of
        None \<Rightarrow> activeConfig
      | Some parsedJson \<Rightarrow>
          (case ApprovalConfigSchema_safeParse parsedJson of
             Some validated \<Rightarrow> validated
           | None \<Rightarrow> activeConfig))"

section \<open>The session layer (client/rpc/client.ts, class \<open>RpcClient\<close>)\<close>

record JsonRpcMessage =
  msg_id :: "string option"
  msg_method :: "string option"
  msg_params :: "json option"
  msg_result :: "json option"
  msg_error :: "json option"

text \<open>The truth value of a property that may be absent (\<open>undefined\<close>).\<close>

fun truthy :: "json option \<Rightarrow> bool" where
  "truthy None = False"
| "truthy (Some JNull) = False"
| "truthy (Some (JBool b)) = b"
| "truthy (Some (JNum n)) = (n \<noteq> 0)"
| "truthy (Some (JStr s)) = (s \<noteq> [])"
| "truthy (Some (JArr _)) = True"
| "truthy (Some (JObj _)) = True"

text \<open>\<open>error.message\<close> and \<open>error.code\<close> on a truthy \<open>error\<close>.\<close>

fun property :: "json option \<Rightarrow> string \<Rightarrow> json option" where
  "property (Some (JObj fs)) k = map_of fs k"
| "property _ k = None"

text \<open>
  The \<open>Error\<close> objects the class builds, by their message template:
  \<open>RPC Error: ${error.message} (Code: ${error.code})\<close>,
  \<open>Initialize failed: ${error.message} (Code: ${error.code})\<close> and
  \<open>Client connection closed during handshake\<close>.
\<close>

datatype failure =
  RpcFailure "json option" "json option"
| InitializeFailed "json option" "json option"
| ClosedDuringHandshake


datatype settlement =
  Fulfilled JsonRpcMessage
| FulfilledInitialize json
| Rejected failure

text \<open>
  A promise is a number, handed out by \<open>next_promise\<close>. \<open>settled\<close> records every call of a
  \<open>resolve\<close> or \<open>reject\<close> function in order; a promise takes the first settlement made
  for it. \<open>pending\<close> is the \<open>Map\<close> in insertion order: each callback is the closure of
  \<open>call\<close> over the promise stored here. \<open>awaiting\<close> holds, for every \<open>performHandshake\<close>
  suspended at its \<open>await\<close>, the promise it waits for. \<open>sent\<close> and \<open>transport_closes\<close>
  are what the transport was asked to do.
\<close>

record RpcClient =
  pending :: "(string \<times> nat) list"
  initializePromise :: "nat option"
  resolveInitialize :: "nat option"
  rejectInitialize :: "nat option"
  closed :: bool
  settled :: "(nat \<times> settlement) list"
  awaiting :: "nat list"
  next_promise :: nat
  sent :: "JsonRpcMessage list"
  transport_closes :: nat

definition new_client :: RpcClient where
  "new_client =
     \<lparr>pending = [], initializePromise = None, resolveInitialize = None,
      rejectInitialize = None, closed = False, settled = [], awaiting = [],
      next_promise = 0, sent = [], transport_closes = 0\<rparr>"

definition INITIALIZE_ID :: string where
  "INITIALIZE_ID = ''client-initialize-handshake''"

definition promise_state :: "RpcClient \<Rightarrow> nat \<Rightarrow> settlement option" where
  "promise_state s h = map_of (settled s) h"

text \<open>\<open>Map.set\<close> and \<open>Map.delete\<close>.\<close>

fun map_set :: "(string \<times> nat) list \<Rightarrow> string \<Rightarrow> nat \<Rightarrow> (string \<times> nat) list" where
  "map_set [] k v = [(k, v)]"
| "map_set ((k', v') # kvs) k v = (if k' = k then (k, v) # kvs else (k', v') # map_set kvs k v)"

definition map_delete :: "(string \<times> nat) list \<Rightarrow> string \<Rightarrow> (string \<times> nat) list" where
  "map_delete kvs k = filter (\<lambda>kv. fst kv \<noteq> k) kvs"

text \<open>The callback \<open>call\<close> stores: what it does to its promise \<open>h\<close> on a response.\<close>

definition call_callback :: "nat \<Rightarrow> JsonRpcMessage \<Rightarrow> nat \<times> settlement" where
  "call_callback h response =
     (if truthy (msg_error response) then
        (h, Rejected (RpcFailure (property (msg_error response) ''message'')
                                 (property (msg_error response) ''code'')))
      else (h, Fulfilled response))"

definition initialized_notification :: JsonRpcMessage where
  "initialized_notification =
     \<lparr>msg_id = None, msg_method = Some ''notifications/initialized'',
      msg_params = Some (JObj []), msg_result = None, msg_error = None\<rparr>"

definition initialize_request :: "string \<Rightarrow> string \<Rightarrow> JsonRpcMessage" where
  "initialize_request clientName clientVersion =
     \<lparr>msg_id = Some INITIALIZE_ID, msg_method = Some ''initialize'',
      msg_params = Some (JObj
        [(''protocolVersion'', JStr ''2024-11-05''),
         (''capabilities'', JObj [(''experimental'', JObj [])]),
         (''clientInfo'', JObj [(''name'', JStr clientName), (''version'', JStr clientVersion)])]),
      msg_result = None, msg_error = None\<rparr>"

text \<open>
  The rest of \<open>performHandshake\<close> after its \<open>await\<close>: when promise \<open>h\<close> is fulfilled every
  caller waiting for it sends the notification; when it is rejected the callers throw.
\<close>

definition resume_fulfilled :: "nat \<Rightarrow> RpcClient \<Rightarrow> RpcClient" where
  "resume_fulfilled h s =
     s\<lparr>sent := sent s @ replicate (count_list (awaiting s) h) initialized_notification,
       awaiting := filter (\<lambda>w. w \<noteq> h) (awaiting s)\<rparr>"

definition resume_rejected :: "nat \<Rightarrow> RpcClient \<Rightarrow> RpcClient" where
  "resume_rejected h s = s\<lparr>awaiting := filter (\<lambda>w. w \<noteq> h) (awaiting s)\<rparr>"

definition clear_initialize :: "RpcClient \<Rightarrow> RpcClient" where
  "clear_initialize s =
     s\<lparr>resolveInitialize := None, rejectInitialize := None, initializePromise := None\<rparr>"

definition handle :: "RpcClient \<Rightarrow> JsonRpcMessage \<Rightarrow> RpcClient" where
  "handle s m =
     (if closed s then s
      else if msg_id m = Some INITIALIZE_ID then
        clear_initialize
          (case (truthy (msg_result m), msg_result m, resolveInitialize s) of
             (True, Some r, Some h) \<Rightarrow>
               resume_fulfilled h (s\<lparr>settled := settled s @ [(h, FulfilledInitialize r)]\<rparr>)
           | _ \<Rightarrow>
               (case (truthy (msg_error m), rejectInitialize s) of
                  (True, Some h) \<Rightarrow>
                    resume_rejected h
                      (s\<lparr>settled := settled s @
                          [(h, Rejected (InitializeFailed (property (msg_error m) ''message'')
                                                           (property (msg_error m) ''code'')))]\<rparr>)
                | _ \<Rightarrow> s))
      else
        (case msg_id m of
           None \<Rightarrow> s
         | Some i \<Rightarrow>
             (case map_of (pending s) i of
                None \<Rightarrow> s
              | Some h \<Rightarrow>
                  s\<lparr>pending := map_delete (pending s) i,
                    settled := settled s @ [call_callback h m]\<rparr>)))"

text \<open>
  \<open>performHandshake\<close> up to its \<open>await\<close>: the state and the promise the caller waits for.
\<close>

definition performHandshake :: "RpcClient \<Rightarrow> string \<Rightarrow> string \<Rightarrow> RpcClient \<times> nat" where
  "performHandshake s clientName clientVersion =
     (case initializePromise s of
        None \<Rightarrow>
          (let h = next_promise s in
           (s\<lparr>initializePromise := Some h, resolveInitialize := Some h,
              rejectInitialize := Some h, next_promise := Suc h,
              sent := sent s @ [initialize_request clientName clientVersion],
              awaiting := awaiting s @ [h]\<rparr>, h))
      | Some h \<Rightarrow> (s\<lparr>awaiting := awaiting s @ [h]\<rparr>, h))"

text \<open>\<open>call\<close>; \<open>uuid\<close> is the value \<open>uuid()\<close> returned.\<close>

definition call :: "RpcClient \<Rightarrow> string \<Rightarrow> string \<Rightarrow> json option \<Rightarrow> RpcClient \<times> nat" where
  "call s uuid method params =
     (let h = next_promise s in
      (s\<lparr>pending := map_set (pending s) uuid h, next_promise := Suc h,
         sent := sent s @ [\<lparr>msg_id = Some uuid, msg_method = Some method, msg_params = params,
                            msg_result = None, msg_error = None\<rparr>]\<rparr>, h))"

definition closed_response :: "string \<Rightarrow> JsonRpcMessage" where
  "closed_response i =
     \<lparr>msg_id = Some i, msg_method = None, msg_params = None, msg_result = None,
      msg_error = Some (JObj [(''code'', JNum (- 32000)),
                              (''message'', JStr ''Client connection closed'')])\<rparr>"

definition close :: "RpcClient \<Rightarrow> RpcClient" where
  "close s =
     (if \<not> closed s then
        (let s1 = s\<lparr>closed := True, transport_closes := Suc (transport_closes s)\<rparr>;
             s2 = s1\<lparr>settled := settled s1 @
                       map (\<lambda>kv. call_callback (snd kv) (closed_response (fst kv))) (pending s1),
                     pending := []\<rparr>
         in (case rejectInitialize s2 of
               Some h \<Rightarrow>
                 clear_initialize
                   (resume_rejected h
                      (s2\<lparr>settled := settled s2 @ [(h, Rejected ClosedDuringHandshake)]\<rparr>))
             | None \<Rightarrow> s2))
      else s)"

section \<open>Runs of the session layer\<close>

text \<open>
  What may happen to a client between two looks at it: a caller enters \<open>performHandshake\<close>
  or \<open>call\<close>, or the transport delivers a message to \<open>handle\<close>.
\<close>

datatype client_op =
  Handshake string string
| Call string string "json option"
| Deliver JsonRpcMessage

fun apply_op :: "RpcClient \<Rightarrow> client_op \<Rightarrow> RpcClient" where
  "apply_op s (Handshake clientName clientVersion) = fst (performHandshake s clientName clientVersion)"
| "apply_op s (Call uuid method params) = fst (call s uuid method params)"
| "apply_op s (Deliver m) = handle s m"

definition run_ops :: "RpcClient \<Rightarrow> client_op list \<Rightarrow> RpcClient" where
  "run_ops s ops = foldl apply_op s ops"

text \<open>The promises the \<open>performHandshake\<close> callers of a run wait for, in order.\<close>

fun handshake_promises :: "RpcClient \<Rightarrow> client_op list \<Rightarrow> nat list" where
  "handshake_promises s [] = []"
| "handshake_promises s (Handshake n v # ops) =
     snd (performHandshake s n v) # handshake_promises (apply_op s (Handshake n v)) ops"
| "handshake_promises s (Call u m p # ops) = handshake_promises (apply_op s (Call u m p)) ops"
| "handshake_promises s (Deliver m # ops) = handshake_promises (apply_op s (Deliver m)) ops"

text \<open>
  The handshake is not completed by an operation that delivers no message under the
  reserved id; \<open>uuid()\<close> does not return the reserved id.
\<close>

fun before_completion :: "client_op \<Rightarrow> bool" where
  "before_completion (Handshake n v) = True"
| "before_completion (Call u m p) = (u \<noteq> INITIALIZE_ID)"
| "before_completion (Deliver m) = (msg_id m \<noteq> Some INITIALIZE_ID)"

definition initialize_requests :: "RpcClient \<Rightarrow> nat" where
  "initialize_requests s = length (filter (\<lambda>m. msg_id m = Some INITIALIZE_ID) (sent s))"

text \<open>Every promise the client refers to was handed out by \<open>next_promise\<close>.\<close>

definition allocated :: "RpcClient \<Rightarrow> bool" where
  "allocated s \<longleftrightarrow>
     (\<forall>h \<in> snd ` set (pending s). h < next_promise s) \<and>
     (\<forall>h \<in> fst ` set (settled s). h < next_promise s) \<and>
     (\<forall>h \<in> set_option (resolveInitialize s) \<union> set_option (rejectInitialize s).
        h < next_promise s)"


text \<open>
  The call registered under \<open>u\<close> waits on promise \<open>h\<close>: the client is open, the map holds
  the callback of \<open>h\<close> under \<open>u\<close> and under no other id, and nothing has settled \<open>h\<close> or
  holds it for the handshake.
\<close>

definition waiting_on :: "RpcClient \<Rightarrow> string \<Rightarrow> nat \<Rightarrow> bool" where
  "waiting_on s u h \<longleftrightarrow>
     \<not> closed s \<and> map_of (pending s) u = Some h \<and> h \<notin> fst ` set (settled s) \<and>
     (\<forall>k h'. map_of (pending s) k = Some h' \<longrightarrow> k \<noteq> u \<longrightarrow> h' \<noteq> h) \<and>
     resolveInitialize s \<noteq> Some h \<and> rejectInitialize s \<noteq> Some h"

section \<open>Concrete inputs\<close>

text \<open>
  An engine that rejects whatever it is asked. The concrete inputs below use plain patterns
  or patterns with unpaired parentheses, which never reach the engine.
\<close>

definition no_engine :: regex_engine where
  "no_engine p c = None"

definition policy :: "bool \<Rightarrow> string list \<Rightarrow> string list \<Rightarrow> bool \<Rightarrow> ApprovalConfig" where
  "policy on allowed denied others =
     \<lparr>autorun_mode = \<lparr>enabled = on, allowlist = allowed, denylist = denied,
        allow_all_other_commands = others\<rparr>\<rparr>"

definition request :: "string \<Rightarrow> bool \<Rightarrow> bool \<Rightarrow> RunTerminalCmdArgs" where
  "request cmd bg approval =
     \<lparr>command = cmd, explanation = ''why'', is_background = bg,
      require_user_approval = approval\<rparr>"


definition exits_at_once :: proc_run where
  "exits_at_once =
     \<lparr>spawn_failure = None, data_events = [StdoutData ''x''],
      ending = Some (CloseEvent (Some 0))\<rparr>"

text \<open>What the child wrote to each stream over a run, chunk after chunk.\<close>

fun stdout_written :: "proc_event list \<Rightarrow> string" where
  "stdout_written [] = []"
| "stdout_written (StdoutData d # es) = d @ stdout_written es"
| "stdout_written (StderrData d # es) = stdout_written es"

fun stderr_written :: "proc_event list \<Rightarrow> string" where
  "stderr_written [] = []"
| "stderr_written (StdoutData d # es) = stderr_written es"
| "stderr_written (StderrData d # es) = d @ stderr_written es"

text \<open>
  A child that writes 2 MiB and one byte to stderr and then 33 chunks of 64 KiB to stdout,
  and is killed when its output passes \<open>maxBuffer\<close>: \<open>'close'\<close> reports no exit code.
\<close>

definition stderr_first :: proc_run where
  "stderr_first =
     \<lparr>spawn_failure = None,
      data_events =
        replicate 32 (StderrData (replicate 65536 CHR ''e'')) @ [StderrData ''e''] @
        replicate 33 (StdoutData (replicate 65536 CHR ''o'')),
      ending = Some (CloseEvent None)\<rparr>"

text \<open>
  \<open>sleep 60\<close> under the 30 second timeout of \<open>exec\<close>: no output, and the child is killed with
  the default \<open>killSignal\<close>, SIGTERM. \<open>'close'\<close> reports no exit code; the exception
  \<open>exec\<close> builds for the kill carries the signal and no code.
\<close>

definition timed_out_close :: proc_run where
  "timed_out_close =
     \<lparr>spawn_failure = None, data_events = [], ending = Some (CloseEvent None)\<rparr>"

definition timed_out_error :: proc_run where
  "timed_out_error =
     \<lparr>spawn_failure = None, data_events = [],
      ending = Some (ErrorEvent \<lparr>err_message = ''Command failed: sleep 60'', err_code = None,
                                 err_signal = Some ''SIGTERM''\<rparr>)\<rparr>"

text \<open>
  \<open>JSON.parse\<close> on the three texts used below: a valid configuration, a JSON document that
  the schema rejects, and a text that is no JSON. Every other text counts as one it rejects.
\<close>

definition valid_config_text :: string where
  \<open>valid_config_text = ''{"autorun_mode":{"enabled":true,"denylist":["rm"],"extra":1}}''\<close>

definition wrong_type_text :: string where
  \<open>wrong_type_text = ''{"autorun_mode":{"enabled":"yes"}}''\<close>

definition sample_parse :: "string \<Rightarrow> json option" where
  "sample_parse t =
     (if t = valid_config_text then
        Some (JObj [(''autorun_mode'',
                JObj [(''enabled'', JBool True), (''denylist'', JArr [JStr ''rm'']),
                      (''extra'', JNum 1)])])
      else if t = wrong_type_text then
        Some (JObj [(''autorun_mode'', JObj [(''enabled'', JStr ''yes'')])])
      else None)"

text \<open>A client with a handshake in flight, and a response in the style of JSON-RPC 1.0.\<close>

definition handshaking :: RpcClient where
  "handshaking = fst (performHandshake new_client ''mcp-client'' ''0.1.0'')"

definition null_error_response :: JsonRpcMessage where
  "null_error_response =
     \<lparr>msg_id = Some ''7d4c'', msg_method = None, msg_params = None,
      msg_result = Some (JStr ''done''), msg_error = Some JNull\<rparr>"

definition remote_error_response :: JsonRpcMessage where
  "remote_error_response =
     \<lparr>msg_id = Some ''7d4c'', msg_method = None, msg_params = None, msg_result = None,
      msg_error = Some (JObj [(''code'', JNum (- 32601)), (''message'', JStr ''Method not found'')])\<rparr>"

definition other_response :: JsonRpcMessage where
  "other_response =
     \<lparr>msg_id = Some ''a001'', msg_method = None, msg_params = None,
      msg_result = Some (JNum 1), msg_error = None\<rparr>"

text \<open>Three callers of \<open>performHandshake\<close>, a \<open>call\<close> and an unrelated response in between.\<close>

definition three_handshakes :: "client_op list" where
  "three_handshakes =
     [Handshake ''mcp-client'' ''0.1.0'', Call ''7d4c'' ''tools/call'' None,
      Handshake ''mcp-cli-client'' ''0.2.0'', Deliver other_response,
      Handshake ''mcp-client'' ''0.1.0'']"




text \<open>
  A message under the reserved id with neither a result nor an error to act on, and two
  callers of \<open>performHandshake\<close> with that message delivered between them.
\<close>

definition empty_initialize_response :: JsonRpcMessage where
  "empty_initialize_response =
     \<lparr>msg_id = Some INITIALIZE_ID, msg_method = None, msg_params = None,
      msg_result = Some JNull, msg_error = None\<rparr>"

definition reset_between_handshakes :: "client_op list" where
  "reset_between_handshakes =
     [Handshake ''mcp-client'' ''0.1.0'', Deliver empty_initialize_response,
      Handshake ''mcp-client'' ''0.1.0'']"

section \<open>Facts about the pattern tests\<close>

lemma policy_fields:
  "enabled (autorun_mode (policy on al dl ao)) = on"
  "allowlist (autorun_mode (policy on al dl ao)) = al"
  "denylist (autorun_mode (policy on al dl ao)) = dl"
  "allow_all_other_commands (autorun_mode (policy on al dl ao)) = ao"
  by (simp_all add: policy_def)

lemma request_fields:
  "command (request c bg ap) = c"
  "is_background (request c bg ap) = bg"
  "require_user_approval (request c bg ap) = ap"
  by (simp_all add: request_def)

lemma starts_with_append: "starts_with s p \<longleftrightarrow> (\<exists>b. s = p @ b)"
  by (induction s p rule: starts_with.induct) auto

lemma str_includes_substring: "str_includes s p \<longleftrightarrow> (\<exists>a b. s = a @ p @ b)"
proof (induction s)
  case Nil
  then show ?case by auto
next
  case (Cons c cs)
  show ?case
  proof
    assume "str_includes (c # cs) p"
    then consider "starts_with (c # cs) p" | "str_includes cs p" by auto
    then show "\<exists>a b. c # cs = a @ p @ b"
    proof cases
      case 1
      then obtain b where "c # cs = p @ b" by (auto simp: starts_with_append)
      then have "c # cs = [] @ p @ b" by simp
      then show ?thesis by blast
    next
      case 2
      with Cons obtain a b where "cs = a @ p @ b" by blast
      then have "c # cs = (c # a) @ p @ b" by simp
      then show ?thesis by blast
    qed
  next
    assume "\<exists>a b. c # cs = a @ p @ b"
    then obtain a b where ab: "c # cs = a @ p @ b" by blast
    show "str_includes (c # cs) p"
    proof (cases a)
      case Nil
      with ab have "starts_with (c # cs) p" by (auto simp: starts_with_append)
      then show ?thesis by simp
    next
      case (Cons x xs)
      with ab have "cs = xs @ p @ b" by simp
      with Cons.IH have "str_includes cs p" by blast
      then show ?thesis by simp
    qed
  qed
qed

lemma includes_any_iff: "includes_any ps cmd \<longleftrightarrow> (\<exists>p \<in> set ps. str_includes cmd p)"
  by (simp add: includes_any_def list_ex_iff)

lemma denylist_word_hit_wellformed:
  assumes "\<forall>q \<in> set ps. \<exists>b. regex_word_test engine q cmd = Inr b"
  shows "denylist_word_hit engine ps cmd =
           Inr (\<exists>p \<in> set ps. regex_word_test engine p cmd = Inr True)"
  using assms
proof (induction ps)
  case Nil
  then show ?case by simp
next
  case (Cons p ps)
  then obtain b where b: "regex_word_test engine p cmd = Inr b" by auto
  show ?case
  proof (cases b)
    case True
    with b show ?thesis by simp
  next
    case False
    with b Cons show ?thesis by simp
  qed
qed

lemma denylist_word_hit_match:
  assumes "ps = before @ p # rest"
    and "\<forall>q \<in> set before. \<exists>b. regex_word_test engine q cmd = Inr b"
    and "regex_word_test engine p cmd = Inr True"
  shows "denylist_word_hit engine ps cmd = Inr True"
  using assms
proof (induction before arbitrary: ps)
  case Nil
  then show ?case by simp
next
  case (Cons q qs)
  then obtain b where b: "regex_word_test engine q cmd = Inr b" by auto
  from Cons have "denylist_word_hit engine (qs @ p # rest) cmd = Inr True" by simp
  with b Cons.prems(1) show ?case by (cases b) simp_all
qed

lemma rm_matches_here: "match_here False ''rm'' ''rm -rf /''"
  by (simp add: match_here_def word_boundary_def is_word_char_def canonicalize_def)

lemma rm_matches: "regex_word_test engine ''rm'' ''rm -rf /'' = Inr True"
  by (simp add: regex_word_test_def plain_def rm_matches_here)

lemma open_paren_throws: "regex_word_test engine ''('' cmd = Inl SyntaxError"
  by (simp add: regex_word_test_def plain_def group_mismatch_def)

section \<open>The denylist is terminal\<close>

text \<open>
  With \<open>enabled\<close> set, a command that matches a denylist pattern is denied whatever
  \<open>allowlist\<close> and \<open>allow_all_other_commands\<close> hold, when the constructor accepts every
  denylist entry scanned before the matching one: \<open>isCommandDenied\<close> (exec.ts line 24)
  returns true and \<open>shouldAutoApproveCommand\<close> returns false.
\<close>

lemma denylist_match_denies:
  assumes "enabled (autorun_mode activeConfig)"
    and "denylist (autorun_mode activeConfig) = before @ p # rest"
    and "\<forall>q \<in> set before. \<exists>b. regex_word_test engine q cmd = Inr b"
    and "regex_word_test engine p cmd = Inr True"
  shows "isCommandDenied engine activeConfig cmd = Inr True
       \<and> shouldAutoApproveCommand engine activeConfig cmd = Inr False"
proof -
  have hit: "denylist_word_hit engine (denylist (autorun_mode activeConfig)) cmd = Inr True"
    using assms(2-4) by (rule denylist_word_hit_match)
  then have "shouldAutoApproveCommand engine activeConfig cmd = Inr False"
    using assms(1) by (simp add: shouldAutoApproveCommand_def)
  moreover from hit have "isCommandDenied engine activeConfig cmd = Inr True"
    by (simp add: isCommandDenied_def)
  ultimately show ?thesis by simp
qed

lemma rm_is_denied:
  "isCommandDenied no_engine (policy True [] [''rm''] True) ''rm -rf /'' = Inr True
   \<and> shouldAutoApproveCommand no_engine (policy True [] [''rm''] True) ''rm -rf /'' = Inr False"
proof -
  have on: "enabled (autorun_mode (policy True [] [''rm''] True))"
    by (simp add: policy_def)
  have dl: "denylist (autorun_mode (policy True [] [''rm''] True)) = [] @ ''rm'' # []"
    by (simp add: policy_def)
  have wf: "\<forall>q \<in> set []. \<exists>b. regex_word_test no_engine q ''rm -rf /'' = Inr b"
    by simp
  show ?thesis
    using denylist_match_denies [OF on dl wf rm_matches] .
qed

text \<open>
  C1 at a configuration the schema accepts. The denylist \<open>["(", "rm"]\<close> holds the pattern
  \<open>rm\<close>, which matches \<open>rm -rf /\<close>, so the claim asks for Deny. The scan interpolates each
  entry unescaped and builds \<open>new RegExp("\\b(\\b", "i")\<close> first, which throws: both
  \<open>isCommandDenied\<close> and \<open>shouldAutoApproveCommand\<close> end with the SyntaxError and give no
  decision.
\<close>

theorem malformed_entry_throws:
  "regex_word_test no_engine ''rm'' ''rm -rf /'' = Inr True
   \<and> isCommandDenied no_engine (policy True [] [''('', ''rm''] True) ''rm -rf /'' = Inl SyntaxError
   \<and> shouldAutoApproveCommand no_engine (policy True [] [''('', ''rm''] True) ''rm -rf /'' =
       Inl SyntaxError"
  by (simp add: rm_matches open_paren_throws isCommandDenied_def shouldAutoApproveCommand_def
      policy_fields)

section \<open>The disabled policy\<close>

lemma disabled_includes:
  assumes "\<not> enabled (autorun_mode activeConfig)"
  shows "isCommandDenied_includes engine activeConfig cmd =
           Inr (\<exists>p \<in> set (denylist (autorun_mode activeConfig)). \<exists>a b. cmd = a @ p @ b)"
  using assms
  by (simp add: isCommandDenied_includes_def includes_any_iff str_includes_substring)

lemma disabled_word:
  assumes "\<not> enabled (autorun_mode activeConfig)"
    and "\<forall>q \<in> set (denylist (autorun_mode activeConfig)).
            \<exists>b. regex_word_test engine q cmd = Inr b"
  shows "isCommandDenied engine activeConfig cmd =
           Inr (\<exists>p \<in> set (denylist (autorun_mode activeConfig)).
                  regex_word_test engine p cmd = Inr True)"
proof -
  have "denylist_word_hit engine (denylist (autorun_mode activeConfig)) cmd =
          Inr (\<exists>p \<in> set (denylist (autorun_mode activeConfig)).
                 regex_word_test engine p cmd = Inr True)"
    using assms(2) by (rule denylist_word_hit_wellformed)
  then show ?thesis
    using assms(1) by (simp add: isCommandDenied_def Let_def split: bool.split)
qed

lemma rm_upper_matches_here: "match_here False ''rm'' ''RM -rf /''"
  by (simp add: match_here_def word_boundary_def is_word_char_def canonicalize_def)

lemma rm_upper_matches: "regex_word_test engine ''rm'' ''RM -rf /'' = Inr True"
  by (simp add: regex_word_test_def plain_def rm_upper_matches_here)

lemma rm_upper_not_included: "\<not> str_includes ''RM -rf /'' ''rm''"
  by simp

text \<open>
  C3, as the code has it. With \<open>enabled\<close> false only the denylist decides, and neither
  \<open>allowlist\<close> nor \<open>allow_all_other_commands\<close> changes the decision. The two copies of
  \<open>isCommandDenied\<close> test the denylist differently: the one at exec.ts line 218 denies
  exactly the commands that contain a denylist entry as a case-sensitive substring; the one
  at line 24 denies exactly the commands that a denylist entry matches as a case-insensitive
  word-bounded regular expression, the entries being well-formed. Every other command is
  admitted.
\<close>

theorem disabled_policy_checks_denylist_only:
  assumes "\<not> enabled (autorun_mode activeConfig)"
  shows "isCommandDenied_includes engine activeConfig cmd =
           Inr (\<exists>p \<in> set (denylist (autorun_mode activeConfig)). \<exists>a b. cmd = a @ p @ b)
       \<and> ((\<forall>q \<in> set (denylist (autorun_mode activeConfig)).
              \<exists>b. regex_word_test engine q cmd = Inr b) \<longrightarrow>
            isCommandDenied engine activeConfig cmd =
              Inr (\<exists>p \<in> set (denylist (autorun_mode activeConfig)).
                     regex_word_test engine p cmd = Inr True))
       \<and> isCommandDenied engine
            (activeConfig\<lparr>autorun_mode :=
               (autorun_mode activeConfig)\<lparr>allowlist := al, allow_all_other_commands := ao\<rparr>\<rparr>) cmd =
          isCommandDenied engine activeConfig cmd
       \<and> isCommandDenied_includes engine
            (activeConfig\<lparr>autorun_mode :=
               (autorun_mode activeConfig)\<lparr>allowlist := al, allow_all_other_commands := ao\<rparr>\<rparr>) cmd =
          isCommandDenied_includes engine activeConfig cmd"
proof -
  have "isCommandDenied engine
          (activeConfig\<lparr>autorun_mode :=
             (autorun_mode activeConfig)\<lparr>allowlist := al, allow_all_other_commands := ao\<rparr>\<rparr>) cmd =
        isCommandDenied engine activeConfig cmd"
    using assms by (simp add: isCommandDenied_def Let_def split: sum.split bool.split)
  moreover have "isCommandDenied_includes engine
          (activeConfig\<lparr>autorun_mode :=
             (autorun_mode activeConfig)\<lparr>allowlist := al, allow_all_other_commands := ao\<rparr>\<rparr>) cmd =
        isCommandDenied_includes engine activeConfig cmd"
    using assms by (simp add: isCommandDenied_includes_def Let_def)
  ultimately show ?thesis
    using disabled_includes [OF assms] disabled_word [OF assms] by blast
qed

theorem disabled_policy_checks_denylist_only_witness:
  "isCommandDenied_includes no_engine (policy False [''ls''] [''rm''] True) ''RM -rf /'' =
     Inr False
   \<and> isCommandDenied no_engine (policy False [''ls''] [''rm''] True) ''RM -rf /'' = Inr True
   \<and> isCommandDenied no_engine (policy False [] [''rm''] False) ''RM -rf /'' = Inr True"
proof -
  have off: "\<not> enabled (autorun_mode (policy False [''ls''] [''rm''] True))"
    by (simp add: policy_def)
  have dl: "denylist (autorun_mode (policy False [''ls''] [''rm''] True)) = [''rm'']"
    by (simp add: policy_def)
  have same: "(policy False [''ls''] [''rm''] True)\<lparr>autorun_mode :=
                (autorun_mode (policy False [''ls''] [''rm''] True))
                  \<lparr>allowlist := [], allow_all_other_commands := False\<rparr>\<rparr> =
              policy False [] [''rm''] False"
    by (simp add: policy_def)
  have nosub: "(\<exists>p \<in> set [''rm'']. \<exists>a b. ''RM -rf /'' = a @ p @ b) = False"
    using rm_upper_not_included unfolding str_includes_substring by simp
  have wf: "\<forall>q \<in> set [''rm'']. \<exists>b. regex_word_test no_engine q ''RM -rf /'' = Inr b"
    using rm_upper_matches [of no_engine] by auto
  have hit: "(\<exists>p \<in> set [''rm'']. regex_word_test no_engine p ''RM -rf /'' = Inr True) = True"
    by (simp add: rm_upper_matches)
  from disabled_policy_checks_denylist_only
      [OF off, where engine = no_engine and cmd = "''RM -rf /''" and al = "[]" and ao = False]
  show ?thesis
    unfolding dl same nosub hit using wf by simp
qed

text \<open>
  C3 as stated fails on the copy at line 218: \<open>rm\<close> matches \<open>RM -rf /\<close> as a
  case-insensitive whole word, yet \<open>"RM -rf /".includes("rm")\<close> is false and the command
  is admitted.
\<close>

theorem includes_copy_counterexample:
  "regex_word_test no_engine ''rm'' ''RM -rf /'' = Inr True
   \<and> isCommandDenied_includes no_engine (policy False [] [''rm''] False) ''RM -rf /'' = Inr False"
  by (simp add: rm_upper_matches isCommandDenied_includes_def policy_def includes_any_def)


section \<open>Policy decision and approval flag\<close>

lemma launch_reaches_exec:
  "(\<forall>r. launch params run = Inr r \<longrightarrow>
      spawned r = [command params @ (if is_background params then '' &'' else [])])
   \<and> (\<forall>e. launch params run = Inl e \<longrightarrow>
      exec_throws (command params @ (if is_background params then '' &'' else [])) run = Some e)"
  by (auto simp add: launch_def split: option.splits)

lemma enabled_admitted_is_approved:
  assumes "enabled (autorun_mode activeConfig)"
    and "isCommandDenied_includes engine activeConfig cmd = Inr False"
  shows "shouldAutoApproveCommand engine activeConfig cmd = Inr True"
  using assms
  by (auto simp add: isCommandDenied_includes_def not_approved_def Let_def split: sum.splits)

lemma disabled_never_approved:
  assumes "\<not> enabled (autorun_mode activeConfig)"
  shows "shouldAutoApproveCommand engine activeConfig cmd = Inr False"
  using assms by (simp add: shouldAutoApproveCommand_def)

lemma rm_denied_when_enabled:
  "isCommandDenied_includes no_engine (policy True [] [''rm''] True) ''rm -rf /'' = Inr True"
  by (simp add: isCommandDenied_includes_def not_approved_def shouldAutoApproveCommand_def
      policy_fields rm_matches)

lemma ls_admitted_when_disabled:
  "isCommandDenied_includes no_engine (policy False [''ls''] [] False) ''ls'' = Inr False"
  by (simp add: isCommandDenied_includes_def policy_fields includes_any_def)

lemma ls_approved_when_enabled:
  "shouldAutoApproveCommand no_engine (policy True [''ls''] [] False) ''ls -la'' = Inr True"
  by (simp add: shouldAutoApproveCommand_def policy_fields includes_any_def)

lemma ls_admitted_when_enabled:
  "isCommandDenied_includes no_engine (policy True [''ls''] [] False) ''ls -la'' = Inr False"
  by (simp add: isCommandDenied_includes_def not_approved_def ls_approved_when_enabled
      policy_fields)

lemma exits_at_once_outcome:
  "launch (request ''ls -la'' False True) exits_at_once =
     Inr \<lparr>outcome = Some (Success \<lparr>result_stdout = ''x'', result_stderr = [],
                               exitCode = CodeNum 0, result_truncated = None\<rparr>),
          spawned = [''ls -la'']\<rparr>"
  by (simp add: launch_def request_def exits_at_once_def foreground_def feed_def no_capture_def
      on_stdout_def on_close_def MAX_BUFFER_SIZE_def exec_throws_def)

text \<open>
  C2, as the code has it. \<open>executeCommand\<close> (exec.ts line 243) composes the decision of
  \<open>isCommandDenied\<close> with \<open>require_user_approval\<close>: denied without the flag is the error
  \<open>security_violation\<close>; denied with the flag is \<open>waiting\<close> and nothing is spawned; admitted
  with the flag is \<open>waiting\<close> unless \<open>shouldAutoApproveCommand\<close> accepts the command, and
  then the command goes to \<open>exec\<close>, which spawns it or throws. With the policy disabled \<open>shouldAutoApproveCommand\<close> accepts
  nothing, so an admitted request with the flag always waits; with the policy enabled every
  admitted command is one it accepts, so such a request always runs.
\<close>

theorem approval_composition:
  "(isCommandDenied_includes engine activeConfig (command params) = Inr True
      \<and> \<not> require_user_approval params \<longrightarrow>
    executeCommand engine activeConfig params run =
      Inr \<lparr>outcome = Some (Error \<lparr>message = ''Command is denied by security rules'',
                                   code = ''security_violation'',
                                   details = CommandDetails (command params)\<rparr>),
           spawned = []\<rparr>)
   \<and> (isCommandDenied_includes engine activeConfig (command params) = Inr True
      \<and> require_user_approval params \<longrightarrow>
    executeCommand engine activeConfig params run = Inr \<lparr>outcome = Some Waiting, spawned = []\<rparr>)
   \<and> (isCommandDenied_includes engine activeConfig (command params) = Inr False
      \<and> require_user_approval params
      \<and> shouldAutoApproveCommand engine activeConfig (command params) = Inr False \<longrightarrow>
    executeCommand engine activeConfig params run = Inr \<lparr>outcome = Some Waiting, spawned = []\<rparr>)
   \<and> (isCommandDenied_includes engine activeConfig (command params) = Inr False
      \<and> require_user_approval params
      \<and> shouldAutoApproveCommand engine activeConfig (command params) = Inr True \<longrightarrow>
    executeCommand engine activeConfig params run = launch params run
      \<and> (\<forall>r. launch params run = Inr r \<longrightarrow>
            spawned r = [command params @ (if is_background params then '' &'' else [])])
      \<and> (\<forall>e. launch params run = Inl e \<longrightarrow>
            exec_throws (command params @ (if is_background params then '' &'' else [])) run =
              Some e))
   \<and> (isCommandDenied_includes engine activeConfig (command params) = Inr False
      \<and> require_user_approval params \<and> \<not> enabled (autorun_mode activeConfig) \<longrightarrow>
    executeCommand engine activeConfig params run = Inr \<lparr>outcome = Some Waiting, spawned = []\<rparr>)
   \<and> (isCommandDenied_includes engine activeConfig (command params) = Inr False
      \<and> require_user_approval params \<and> enabled (autorun_mode activeConfig) \<longrightarrow>
    executeCommand engine activeConfig params run = launch params run
      \<and> (\<forall>r. launch params run = Inr r \<longrightarrow>
            spawned r = [command params @ (if is_background params then '' &'' else [])])
      \<and> (\<forall>e. launch params run = Inl e \<longrightarrow>
            exec_throws (command params @ (if is_background params then '' &'' else [])) run =
              Some e))"
proof (intro conjI impI)
  assume "isCommandDenied_includes engine activeConfig (command params) = Inr True
      \<and> \<not> require_user_approval params"
  then show "executeCommand engine activeConfig params run =
      Inr \<lparr>outcome = Some (Error \<lparr>message = ''Command is denied by security rules'',
                                   code = ''security_violation'',
                                   details = CommandDetails (command params)\<rparr>),
           spawned = []\<rparr>"
    by (simp add: executeCommand_def security_violation_def)
next
  assume "isCommandDenied_includes engine activeConfig (command params) = Inr True
      \<and> require_user_approval params"
  then show "executeCommand engine activeConfig params run =
      Inr \<lparr>outcome = Some Waiting, spawned = []\<rparr>"
    by (simp add: executeCommand_def)
next
  assume "isCommandDenied_includes engine activeConfig (command params) = Inr False
      \<and> require_user_approval params
      \<and> shouldAutoApproveCommand engine activeConfig (command params) = Inr False"
  then show "executeCommand engine activeConfig params run =
      Inr \<lparr>outcome = Some Waiting, spawned = []\<rparr>"
    by (simp add: executeCommand_def)
next
  assume "isCommandDenied_includes engine activeConfig (command params) = Inr False
      \<and> require_user_approval params
      \<and> shouldAutoApproveCommand engine activeConfig (command params) = Inr True"
  then show "executeCommand engine activeConfig params run = launch params run"
    by (simp add: executeCommand_def)
next
  show "\<forall>r. launch params run = Inr r \<longrightarrow>
          spawned r = [command params @ (if is_background params then '' &'' else [])]"
    using launch_reaches_exec by blast
next
  show "\<forall>e. launch params run = Inl e \<longrightarrow>
          exec_throws (command params @ (if is_background params then '' &'' else [])) run =
            Some e"
    using launch_reaches_exec by blast
next
  assume "isCommandDenied_includes engine activeConfig (command params) = Inr False
      \<and> require_user_approval params \<and> \<not> enabled (autorun_mode activeConfig)"
  then show "executeCommand engine activeConfig params run =
      Inr \<lparr>outcome = Some Waiting, spawned = []\<rparr>"
    by (simp add: executeCommand_def disabled_never_approved)
next
  assume "isCommandDenied_includes engine activeConfig (command params) = Inr False
      \<and> require_user_approval params \<and> enabled (autorun_mode activeConfig)"
  then show "executeCommand engine activeConfig params run = launch params run"
    by (simp add: executeCommand_def enabled_admitted_is_approved)
next
  show "\<forall>r. launch params run = Inr r \<longrightarrow>
          spawned r = [command params @ (if is_background params then '' &'' else [])]"
    using launch_reaches_exec by blast
next
  show "\<forall>e. launch params run = Inl e \<longrightarrow>
          exec_throws (command params @ (if is_background params then '' &'' else [])) run =
            Some e"
    using launch_reaches_exec by blast
qed

theorem approval_composition_witness:
  "executeCommand no_engine (policy True [] [''rm''] True) (request ''rm -rf /'' False False)
     exits_at_once =
     Inr \<lparr>outcome = Some (Error \<lparr>message = ''Command is denied by security rules'',
                                  code = ''security_violation'',
                                  details = CommandDetails ''rm -rf /''\<rparr>),
          spawned = []\<rparr>
   \<and> executeCommand no_engine (policy True [] [''rm''] True) (request ''rm -rf /'' False True)
     exits_at_once = Inr \<lparr>outcome = Some Waiting, spawned = []\<rparr>
   \<and> executeCommand no_engine (policy True [''ls''] [] False) (request ''ls -la'' False True)
     exits_at_once =
     Inr \<lparr>outcome = Some (Success \<lparr>result_stdout = ''x'', result_stderr = [],
                                exitCode = CodeNum 0, result_truncated = None\<rparr>),
          spawned = [''ls -la'']\<rparr>"
proof -
  have on: "enabled (autorun_mode (policy True [''ls''] [] False))"
    by (simp add: policy_fields)
  show ?thesis
    using
      approval_composition [where engine = no_engine and activeConfig = "policy True [] [''rm''] True"
        and params = "request ''rm -rf /'' False False" and run = exits_at_once]
      approval_composition [where engine = no_engine and activeConfig = "policy True [] [''rm''] True"
        and params = "request ''rm -rf /'' False True" and run = exits_at_once]
      approval_composition [where engine = no_engine and activeConfig = "policy True [''ls''] [] False"
        and params = "request ''ls -la'' False True" and run = exits_at_once]
      rm_denied_when_enabled ls_admitted_when_enabled ls_approved_when_enabled on
    by (simp add: request_fields exits_at_once_outcome)
qed

text \<open>
  C2 as stated fails: with the policy disabled, \<open>ls\<close> is admitted and contains the allowlist
  entry \<open>ls\<close>, yet the request with the flag set waits and nothing is run.
\<close>

theorem allowlisted_command_waits_counterexample:
  "isCommandDenied_includes no_engine (policy False [''ls''] [] False) ''ls'' = Inr False
   \<and> includes_any [''ls''] ''ls''
   \<and> executeCommand no_engine (policy False [''ls''] [] False) (request ''ls'' False True)
        exits_at_once = Inr \<lparr>outcome = Some Waiting, spawned = []\<rparr>"
  by (simp add: ls_admitted_when_disabled includes_any_def executeCommand_def request_fields
      disabled_never_approved policy_fields)

section \<open>The output cap\<close>

lemma feed_Nil: "feed c [] = c"
  by (simp add: feed_def)

lemma feed_Cons: "feed c (e # es) = feed (on_data c e) es"
  by (simp add: feed_def)

lemma feed_append: "feed c (xs @ ys) = feed (feed c xs) ys"
  by (simp add: feed_def)

lemma stdout_full_stays:
  "length (stdout c) = MAX_BUFFER_SIZE \<Longrightarrow> stdout (feed c es) = stdout c"
proof (induction es arbitrary: c)
  case Nil
  then show ?case by (simp add: feed_Nil)
next
  case (Cons e es)
  have "stdout (on_data c e) = stdout c"
    using Cons.prems by (cases e) (simp_all add: on_stdout_def on_stderr_def)
  with Cons show ?case by (simp add: feed_Cons)
qed

lemma truncated_stays: "truncated c \<Longrightarrow> truncated (feed c es)"
proof (induction es arbitrary: c)
  case Nil
  then show ?case by (simp add: feed_Nil)
next
  case (Cons e es)
  have "truncated (on_data c e)"
    using Cons.prems by (cases e) (simp_all add: on_stdout_def on_stderr_def)
  with Cons show ?case by (simp add: feed_Cons)
qed

lemma stdout_within_cap:
  "length (stdout c) \<le> MAX_BUFFER_SIZE \<Longrightarrow> length (stdout (feed c es)) \<le> MAX_BUFFER_SIZE"
proof (induction es arbitrary: c)
  case Nil
  then show ?case by (simp add: feed_Nil)
next
  case (Cons e es)
  have "length (stdout (on_data c e)) \<le> MAX_BUFFER_SIZE"
    using Cons.prems by (cases e) (auto simp add: on_stdout_def on_stderr_def)
  with Cons show ?case by (simp add: feed_Cons)
qed

lemma stdout_cap_when_stderr_fits:
  assumes "\<not> truncated c"
    and "length (stdout c) \<le> MAX_BUFFER_SIZE"
    and "length (stderr c) + length (stderr_written es) \<le> MAX_BUFFER_SIZE"
  shows "stdout (feed c es) = take MAX_BUFFER_SIZE (stdout c @ stdout_written es)
       \<and> (truncated (feed c es) \<longleftrightarrow>
            length (stdout c) + length (stdout_written es) > MAX_BUFFER_SIZE)"
  using assms
proof (induction es arbitrary: c)
  case Nil
  then show ?case by (simp add: feed_Nil)
next
  case (Cons e es)
  show ?case
  proof (cases e)
    case (StdoutData d)
    show ?thesis
    proof (cases "length (stdout c) + length d > MAX_BUFFER_SIZE")
      case True
      let ?c' = "on_stdout c d"
      have full: "length (stdout ?c') = MAX_BUFFER_SIZE"
        using True Cons.prems(2) by (simp add: on_stdout_def)
      have tr: "truncated ?c'"
        using True by (simp add: on_stdout_def)
      have val: "stdout ?c' = take MAX_BUFFER_SIZE (stdout c @ d)"
        using True Cons.prems(2) by (simp add: on_stdout_def)
      have "stdout (feed ?c' es) = stdout ?c'"
        using full by (rule stdout_full_stays)
      moreover have "truncated (feed ?c' es)"
        using tr by (rule truncated_stays)
      moreover have "take MAX_BUFFER_SIZE (stdout c @ d) =
                     take MAX_BUFFER_SIZE (stdout c @ d @ stdout_written es)"
        using True by simp
      ultimately show ?thesis
        using StdoutData True val by (simp add: feed_Cons)
    next
      case False
      let ?c' = "on_stdout c d"
      have c': "?c' = c\<lparr>stdout := stdout c @ d\<rparr>"
        using False Cons.prems(1) by (simp add: on_stdout_def)
      have "stdout (feed ?c' es) = take MAX_BUFFER_SIZE (stdout ?c' @ stdout_written es)
          \<and> (truncated (feed ?c' es) \<longleftrightarrow>
               length (stdout ?c') + length (stdout_written es) > MAX_BUFFER_SIZE)"
        using Cons.prems False StdoutData unfolding c'
        by (intro Cons.IH) simp_all
      then show ?thesis
        using StdoutData by (simp add: feed_Cons c' add.assoc)
    qed
  next
    case (StderrData d)
    let ?c' = "on_stderr c d"
    have c': "?c' = c\<lparr>stderr := stderr c @ d\<rparr>"
      using Cons.prems StderrData by (simp add: on_stderr_def)
    have "stdout (feed ?c' es) = take MAX_BUFFER_SIZE (stdout ?c' @ stdout_written es)
        \<and> (truncated (feed ?c' es) \<longleftrightarrow>
             length (stdout ?c') + length (stdout_written es) > MAX_BUFFER_SIZE)"
      using Cons.prems StderrData unfolding c'
      by (intro Cons.IH) simp_all
    then show ?thesis
      using StderrData by (simp add: feed_Cons c')
  qed
qed

lemma on_data_truncated: "truncated c \<Longrightarrow> truncated (on_data c e)"
  by (cases e) (simp_all add: on_stdout_def on_stderr_def)

lemma untruncated_keeps_all:
  assumes "length (stdout c) \<le> MAX_BUFFER_SIZE"
    and "\<not> truncated (feed c es)"
  shows "length (stdout c) + length (stdout_written es) \<le> MAX_BUFFER_SIZE"
  using assms
proof (induction es arbitrary: c)
  case Nil
  then show ?case by simp
next
  case (Cons e es)
  from Cons.prems(2) have nt': "\<not> truncated (on_data c e)"
    using truncated_stays [of "on_data c e" es] by (auto simp add: feed_Cons)
  then have nt: "\<not> truncated c"
    using on_data_truncated by blast
  show ?case
  proof (cases e)
    case (StdoutData d)
    with nt' have fits: "\<not> length (stdout c) + length d > MAX_BUFFER_SIZE"
      by (auto simp add: on_stdout_def)
    with nt have c': "on_stdout c d = c\<lparr>stdout := stdout c @ d\<rparr>"
      by (simp add: on_stdout_def)
    have len: "length (stdout (on_data c e)) \<le> MAX_BUFFER_SIZE"
      using fits StdoutData by (simp add: c')
    have rest: "\<not> truncated (feed (on_data c e) es)"
      using Cons.prems(2) by (simp add: feed_Cons)
    from Cons.IH [OF len rest] show ?thesis
      using StdoutData by (simp add: c')
  next
    case (StderrData d)
    have same: "stdout (on_stderr c d) = stdout c"
      by (simp add: on_stderr_def)
    have len: "length (stdout (on_data c e)) \<le> MAX_BUFFER_SIZE"
      using Cons.prems(1) StderrData by (simp add: same)
    have rest: "\<not> truncated (feed (on_data c e) es)"
      using Cons.prems(2) by (simp add: feed_Cons)
    from Cons.IH [OF len rest] show ?thesis
      using StderrData by (simp add: same)
  qed
qed

lemma overflow_sets_truncated:
  assumes "length (stdout_written es) > MAX_BUFFER_SIZE"
  shows "truncated (feed no_capture es)
       \<and> length (stdout (feed no_capture es)) \<le> MAX_BUFFER_SIZE"
proof -
  have "length (stdout no_capture) \<le> MAX_BUFFER_SIZE"
    by (simp add: no_capture_def)
  then show ?thesis
    using assms untruncated_keeps_all [of no_capture es] stdout_within_cap [of no_capture es]
    by (auto simp add: no_capture_def)
qed

lemma first_2MiB_when_stderr_fits:
  assumes "length (stdout_written es) > MAX_BUFFER_SIZE"
    and "length (stderr_written es) \<le> MAX_BUFFER_SIZE"
  shows "foreground cmd
           \<lparr>spawn_failure = failure, data_events = es,
            ending = Some (CloseEvent exit_status)\<rparr> =
           Some (Success \<lparr>result_stdout = take MAX_BUFFER_SIZE (stdout_written es),
                            result_stderr = stderr (feed no_capture es),
                            exitCode = CodeNum (case exit_status of None \<Rightarrow> - 1 | Some n \<Rightarrow> n),
                            result_truncated = Some True\<rparr>)"
proof -
  have "stdout (feed no_capture es) = take MAX_BUFFER_SIZE (stdout no_capture @ stdout_written es)
      \<and> (truncated (feed no_capture es) \<longleftrightarrow>
           length (stdout no_capture) + length (stdout_written es) > MAX_BUFFER_SIZE)"
    using assms by (intro stdout_cap_when_stderr_fits) (simp_all add: no_capture_def)
  then show ?thesis
    using assms(1) by (simp add: foreground_def on_close_def no_capture_def)
qed

lemma stderr_chunks_kept:
  assumes "\<not> truncated c"
    and "length (stderr c) + n * k \<le> MAX_BUFFER_SIZE"
  shows "feed c (replicate n (StderrData (replicate k x))) =
           c\<lparr>stderr := stderr c @ replicate (n * k) x\<rparr>"
  using assms
proof (induction n arbitrary: c)
  case 0
  then show ?case by (simp add: feed_Nil)
next
  case (Suc n)
  let ?c' = "c\<lparr>stderr := stderr c @ replicate k x\<rparr>"
  have step: "on_stderr c (replicate k x) = ?c'"
    using Suc.prems by (simp add: on_stderr_def)
  have "feed ?c' (replicate n (StderrData (replicate k x))) =
          ?c'\<lparr>stderr := stderr ?c' @ replicate (n * k) x\<rparr>"
    using Suc.prems by (intro Suc.IH) simp_all
  then show ?case
    by (simp add: feed_Cons step replicate_add)
qed

lemma stdout_chunks_dropped:
  assumes "truncated c"
    and "length (stdout c) + length d \<le> MAX_BUFFER_SIZE"
  shows "feed c (replicate n (StdoutData d)) = c"
proof (induction n)
  case 0
  then show ?case by (simp add: feed_Nil)
next
  case (Suc n)
  have "on_stdout c d = c"
    using assms by (simp add: on_stdout_def)
  with Suc show ?case by (simp add: feed_Cons)
qed

lemma stdout_written_append:
  "stdout_written (xs @ ys) = stdout_written xs @ stdout_written ys"
  by (induction xs rule: stdout_written.induct) simp_all

lemma stdout_written_stderr_chunks: "stdout_written (replicate n (StderrData d)) = []"
  by (induction n) simp_all

lemma stdout_written_stdout_chunks:
  "length (stdout_written (replicate n (StdoutData d))) = n * length d"
  by (induction n) simp_all

lemma stderr_first_capture:
  "feed no_capture (data_events stderr_first) =
     \<lparr>stdout = [], stderr = replicate 2097152 CHR ''e'', truncated = True\<rparr>"
proof -
  have a: "feed no_capture (replicate 32 (StderrData (replicate 65536 CHR ''e''))) =
             \<lparr>stdout = [], stderr = replicate 2097152 CHR ''e'', truncated = False\<rparr>"
    using stderr_chunks_kept [of no_capture 32 65536 "CHR ''e''"]
    by (simp add: no_capture_def MAX_BUFFER_SIZE_def)
  have b: "on_stderr \<lparr>stdout = [], stderr = replicate 2097152 CHR ''e'', truncated = False\<rparr> ''e'' =
             \<lparr>stdout = [], stderr = replicate 2097152 CHR ''e'', truncated = True\<rparr>"
    by (simp add: on_stderr_def MAX_BUFFER_SIZE_def)
  have c: "feed \<lparr>stdout = [], stderr = replicate 2097152 CHR ''e'', truncated = True\<rparr>
             (replicate 33 (StdoutData (replicate 65536 CHR ''o''))) =
           \<lparr>stdout = [], stderr = replicate 2097152 CHR ''e'', truncated = True\<rparr>"
    by (rule stdout_chunks_dropped) (simp_all add: MAX_BUFFER_SIZE_def)
  show ?thesis
    by (simp add: stderr_first_def feed_append a feed_Cons feed_Nil b c)
qed

lemma cap_error_is_success:
  assumes "err_signal e = Some ''SIGTERM''
         \<or> err_code e = Some (CodeStr ''ERR_CHILD_PROCESS_STDIO_MAXBUFFER'')"
  shows "\<exists>r. on_error c cmd e = Success r \<and> result_stdout r = stdout c
             \<and> result_truncated r = Some True"
  using assms by (auto simp add: on_error_def Let_def)

text \<open>
  C4 at a run the code can receive. The child of \<open>stderr_first\<close> writes more than 2 MiB to
  stdout, but only after its stderr has passed the cap: the stderr listener has set the shared
  \<open>truncated\<close>, every stdout chunk still fits below the cap, and the stdout listener drops
  each one in its \<open>else if (!truncated)\<close>. The outcome is a success with \<open>truncated\<close> set
  that retains nothing of stdout, not its first 2 MiB. (When stderr stays within the cap
  the first 2 MiB are retained: \<open>first_2MiB_when_stderr_fits\<close>.)
\<close>

theorem stderr_overflow_drops_stdout:
  "MAX_BUFFER_SIZE < length (stdout_written (data_events stderr_first))
   \<and> executeCommand no_engine defaultConfig (request ''./noisy'' False False) stderr_first =
       Inr \<lparr>outcome = Some (Success \<lparr>result_stdout = [],
                                  result_stderr = replicate 2097152 CHR ''e'',
                                  exitCode = CodeNum (- 1), result_truncated = Some True\<rparr>),
            spawned = [''./noisy'']\<rparr>"
proof -
  have "length (stdout_written (data_events stderr_first)) = 33 * 65536"
    by (simp add: stderr_first_def stdout_written_append stdout_written_stderr_chunks
        stdout_written_stdout_chunks)
  then have "MAX_BUFFER_SIZE < length (stdout_written (data_events stderr_first))"
    by (simp add: MAX_BUFFER_SIZE_def)
  moreover have "isCommandDenied_includes no_engine defaultConfig ''./noisy'' = Inr False"
    by (simp add: isCommandDenied_includes_def defaultConfig_def includes_any_def)
  moreover have "ending stderr_first = Some (CloseEvent None)"
    by (simp add: stderr_first_def)
  moreover have "exec_throws ''./noisy'' stderr_first = None"
    by (simp add: exec_throws_def stderr_first_def)
  ultimately show ?thesis
    by (simp add: executeCommand_def request_fields launch_def foreground_def
        stderr_first_capture on_close_def)
qed

section \<open>The timeout\<close>

lemma timeout_error_kind:
  assumes "err_signal e \<noteq> Some ''SIGTERM''"
    and "err_code e \<noteq> Some (CodeStr ''ERR_CHILD_PROCESS_STDIO_MAXBUFFER'')"
    and "err_code e = Some (CodeStr ''ETIMEDOUT'') \<or> err_signal e = Some ''SIGKILL''"
  shows "on_error c cmd e =
           Error \<lparr>message = ''Command timed out after 30 seconds.'', code = ''timeout'',
                  details = ExecDetails cmd (err_code e) (err_signal e)\<rparr>"
  using assms by (auto simp add: on_error_def Let_def timeout_message_def)

text \<open>
  C5 at a command that runs into the timeout. \<open>exec\<close> is given \<open>timeout\<close> and no
  \<open>killSignal\<close>, so the child is killed with SIGTERM. Whether the listeners see the
  \<open>'close'\<close> of the killed child or the exception built for the kill, the outcome is a
  success: the \<open>'close'\<close> listener knows no error, and the \<open>'error'\<close> listener takes SIGTERM
  for the buffer limit before it looks for a timeout. Neither is the error \<open>timeout\<close>.
\<close>

theorem timeout_resolves_success:
  "executeCommand no_engine defaultConfig (request ''sleep 60'' False False) timed_out_close =
     Inr \<lparr>outcome = Some (Success \<lparr>result_stdout = [], result_stderr = [],
                                exitCode = CodeNum (- 1), result_truncated = None\<rparr>),
          spawned = [''sleep 60'']\<rparr>
   \<and> executeCommand no_engine defaultConfig (request ''sleep 60'' False False) timed_out_error =
     Inr \<lparr>outcome = Some (Success \<lparr>result_stdout = [],
                                result_stderr = CHR 0x0A #
                                  ''ERROR: Command output exceeded 2MB buffer limit.'',
                                exitCode = CodeNum 1, result_truncated = Some True\<rparr>),
          spawned = [''sleep 60'']\<rparr>"
proof -
  have "isCommandDenied_includes no_engine defaultConfig ''sleep 60'' = Inr False"
    by (simp add: isCommandDenied_includes_def defaultConfig_def includes_any_def)
  then show ?thesis
    by (simp add: executeCommand_def request_fields launch_def foreground_def
        timed_out_close_def timed_out_error_def feed_Nil no_capture_def on_close_def
        on_error_def max_buffer_message_def MAX_BUFFER_SIZE_def exec_throws_def)
qed

section \<open>Configuration reload\<close>

lemma boolean_default_Some:
  "boolean_default d x = Some b \<longleftrightarrow> (x = None \<and> b = d) \<or> x = Some (JBool b)"
  by (cases "(d, x)" rule: boolean_default.cases) auto

lemma safeParse_validated:
  assumes "ApprovalConfigSchema_safeParse j = Some v"
  shows "\<exists>fs ms. j = JObj fs \<and> map_of fs ''autorun_mode'' = Some (JObj ms)
           \<and> boolean_default False (map_of ms ''enabled'') = Some (enabled (autorun_mode v))
           \<and> string_array_default (map_of ms ''allowlist'') = Some (allowlist (autorun_mode v))
           \<and> string_array_default (map_of ms ''denylist'') = Some (denylist (autorun_mode v))
           \<and> boolean_default False (map_of ms ''allow_all_other_commands'') =
               Some (allow_all_other_commands (autorun_mode v))"
  using assms
  by (auto simp add: ApprovalConfigSchema_safeParse_def autorun_mode_safeParse_def
      split: json.splits option.splits)

lemma valid_config_parsed:
  "ApprovalConfigSchema_safeParse
     (JObj [(''autorun_mode'',
        JObj [(''enabled'', JBool True), (''denylist'', JArr [JStr ''rm'']),
              (''extra'', JNum 1)])]) =
   Some (policy True [] [''rm''] False)"
  by (simp add: ApprovalConfigSchema_safeParse_def autorun_mode_safeParse_def policy_def)

lemma wrong_type_rejected:
  "ApprovalConfigSchema_safeParse
     (JObj [(''autorun_mode'', JObj [(''enabled'', JStr ''yes'')])]) = None"
  by (simp add: ApprovalConfigSchema_safeParse_def autorun_mode_safeParse_def)

lemma texts_differ: "wrong_type_text \<noteq> valid_config_text"
  by (simp add: wrong_type_text_def valid_config_text_def)

lemma no_json: "''{broken'' \<noteq> valid_config_text" "''{broken'' \<noteq> wrong_type_text"
  by (simp_all add: wrong_type_text_def valid_config_text_def)

text \<open>
  C10. \<open>setConfigFromJson\<close> leaves \<open>activeConfig\<close> as it is when the text is not JSON or
  the parsed value fails \<open>ApprovalConfigSchema\<close>; when both succeed the new configuration
  is the schema's output, whatever the old one was; and a configuration that changed is
  always the schema's output for the parsed text: an object whose \<open>autorun_mode\<close> is an
  object, all four fields of the new configuration read from it or defaulted.
\<close>

theorem reload_keeps_config_unless_valid:
  "((JSON_parse jsonString = None
       \<or> (\<exists>j. JSON_parse jsonString = Some j \<and> ApprovalConfigSchema_safeParse j = None)) \<longrightarrow>
      setConfigFromJson JSON_parse jsonString activeConfig = activeConfig)
   \<and> (\<forall>j v. JSON_parse jsonString = Some j \<and> ApprovalConfigSchema_safeParse j = Some v \<longrightarrow>
      setConfigFromJson JSON_parse jsonString activeConfig = v)
   \<and> (setConfigFromJson JSON_parse jsonString activeConfig \<noteq> activeConfig \<longrightarrow>
      (\<exists>fs ms. JSON_parse jsonString = Some (JObj fs)
         \<and> map_of fs ''autorun_mode'' = Some (JObj ms)
         \<and> ApprovalConfigSchema_safeParse (JObj fs) =
             Some (setConfigFromJson JSON_parse jsonString activeConfig)
         \<and> boolean_default False (map_of ms ''enabled'') =
             Some (enabled (autorun_mode (setConfigFromJson JSON_parse jsonString activeConfig)))
         \<and> string_array_default (map_of ms ''allowlist'') =
             Some (allowlist (autorun_mode (setConfigFromJson JSON_parse jsonString activeConfig)))
         \<and> string_array_default (map_of ms ''denylist'') =
             Some (denylist (autorun_mode (setConfigFromJson JSON_parse jsonString activeConfig)))
         \<and> boolean_default False (map_of ms ''allow_all_other_commands'') =
             Some (allow_all_other_commands
                    (autorun_mode (setConfigFromJson JSON_parse jsonString activeConfig)))))"
proof (intro conjI impI allI)
  assume "JSON_parse jsonString = None
       \<or> (\<exists>j. JSON_parse jsonString = Some j \<and> ApprovalConfigSchema_safeParse j = None)"
  then show "setConfigFromJson JSON_parse jsonString activeConfig = activeConfig"
    by (auto simp add: setConfigFromJson_def)
next
  fix j v
  assume "JSON_parse jsonString = Some j \<and> ApprovalConfigSchema_safeParse j = Some v"
  then show "setConfigFromJson JSON_parse jsonString activeConfig = v"
    by (simp add: setConfigFromJson_def)
next
  let ?new = "setConfigFromJson JSON_parse jsonString activeConfig"
  assume changed: "?new \<noteq> activeConfig"
  then obtain j where j: "JSON_parse jsonString = Some j"
    and valid: "ApprovalConfigSchema_safeParse j = Some ?new"
    by (auto simp add: setConfigFromJson_def split: option.splits)
  from safeParse_validated [OF valid] j valid
  show "\<exists>fs ms. JSON_parse jsonString = Some (JObj fs)
         \<and> map_of fs ''autorun_mode'' = Some (JObj ms)
         \<and> ApprovalConfigSchema_safeParse (JObj fs) = Some ?new
         \<and> boolean_default False (map_of ms ''enabled'') = Some (enabled (autorun_mode ?new))
         \<and> string_array_default (map_of ms ''allowlist'') = Some (allowlist (autorun_mode ?new))
         \<and> string_array_default (map_of ms ''denylist'') = Some (denylist (autorun_mode ?new))
         \<and> boolean_default False (map_of ms ''allow_all_other_commands'') =
             Some (allow_all_other_commands (autorun_mode ?new))"
    by auto
qed

theorem reload_keeps_config_unless_valid_witness:
  "setConfigFromJson sample_parse ''{broken'' (policy True [''ls''] [] False) =
     policy True [''ls''] [] False
   \<and> setConfigFromJson sample_parse wrong_type_text (policy True [''ls''] [] False) =
     policy True [''ls''] [] False
   \<and> setConfigFromJson sample_parse valid_config_text (policy True [''ls''] [] False) =
     policy True [] [''rm''] False"
proof -
  have a: "sample_parse ''{broken'' = None"
    by (simp add: sample_parse_def no_json)
  have b: "sample_parse wrong_type_text =
             Some (JObj [(''autorun_mode'', JObj [(''enabled'', JStr ''yes'')])])"
    by (simp add: sample_parse_def texts_differ)
  have c: "sample_parse valid_config_text =
             Some (JObj [(''autorun_mode'',
                JObj [(''enabled'', JBool True), (''denylist'', JArr [JStr ''rm'']),
                      (''extra'', JNum 1)])])"
    by (simp add: sample_parse_def)
  have "setConfigFromJson sample_parse ''{broken'' (policy True [''ls''] [] False) =
          policy True [''ls''] [] False"
    using reload_keeps_config_unless_valid [where JSON_parse = sample_parse
        and jsonString = "''{broken''" and activeConfig = "policy True [''ls''] [] False"] a
    by blast
  moreover
  have "setConfigFromJson sample_parse wrong_type_text (policy True [''ls''] [] False) =
          policy True [''ls''] [] False"
    using reload_keeps_config_unless_valid [where JSON_parse = sample_parse
        and jsonString = wrong_type_text and activeConfig = "policy True [''ls''] [] False"]
      b wrong_type_rejected
    by blast
  moreover
  have "setConfigFromJson sample_parse valid_config_text (policy True [''ls''] [] False) =
          policy True [] [''rm''] False"
    using reload_keeps_config_unless_valid [where JSON_parse = sample_parse
        and jsonString = valid_config_text and activeConfig = "policy True [''ls''] [] False"]
      c valid_config_parsed
    by blast
  ultimately show ?thesis by blast
qed

section \<open>One handshake in flight\<close>

lemma handshake_in_flight:
  assumes "initializePromise s = Some h"
  shows "snd (performHandshake s n v) = h"
    and "initializePromise (fst (performHandshake s n v)) = Some h"
    and "sent (fst (performHandshake s n v)) = sent s"
  using assms by (simp_all add: performHandshake_def)

lemma handshake_fresh:
  assumes "initializePromise s = None"
  shows "snd (performHandshake s n v) = next_promise s"
    and "initializePromise (fst (performHandshake s n v)) = Some (next_promise s)"
    and "sent (fst (performHandshake s n v)) = sent s @ [initialize_request n v]"
  using assms by (simp_all add: performHandshake_def Let_def)

lemma call_keeps_handshake:
  "initializePromise (fst (call s u m p)) = initializePromise s"
  by (simp add: call_def Let_def)

lemma call_initialize_requests:
  "u \<noteq> INITIALIZE_ID \<Longrightarrow> initialize_requests (fst (call s u m p)) = initialize_requests s"
  by (simp add: call_def Let_def initialize_requests_def)

lemma handle_keeps_handshake:
  assumes "msg_id m \<noteq> Some INITIALIZE_ID"
  shows "initializePromise (handle s m) = initializePromise s"
    and "sent (handle s m) = sent s"
  using assms by (simp_all add: handle_def split: option.splits)

lemma handshake_in_flight_requests:
  "initializePromise s = Some h \<Longrightarrow>
     initialize_requests (fst (performHandshake s n v)) = initialize_requests s"
  by (simp add: initialize_requests_def handshake_in_flight)

lemma handle_initialize_requests:
  "msg_id m \<noteq> Some INITIALIZE_ID \<Longrightarrow> initialize_requests (handle s m) = initialize_requests s"
  by (simp add: initialize_requests_def handle_keeps_handshake)

lemma initialize_request_id: "msg_id (initialize_request n v) = Some INITIALIZE_ID"
  by (simp add: initialize_request_def)

lemma in_flight_run:
  assumes "initializePromise s = Some h"
    and "\<forall>op \<in> set ops. before_completion op"
  shows "initializePromise (run_ops s ops) = Some h
       \<and> initialize_requests (run_ops s ops) = initialize_requests s
       \<and> set (handshake_promises s ops) \<subseteq> {h}"
  using assms
proof (induction ops arbitrary: s)
  case Nil
  then show ?case by (simp add: run_ops_def)
next
  case (Cons op ops)
  have step: "initializePromise (apply_op s op) = Some h
            \<and> initialize_requests (apply_op s op) = initialize_requests s"
    using Cons.prems
    by (cases op)
       (simp_all add: handshake_in_flight handshake_in_flight_requests call_keeps_handshake
          call_initialize_requests handle_keeps_handshake handle_initialize_requests)
  then have rest: "initializePromise (run_ops (apply_op s op) ops) = Some h
       \<and> initialize_requests (run_ops (apply_op s op) ops) = initialize_requests (apply_op s op)
       \<and> set (handshake_promises (apply_op s op) ops) \<subseteq> {h}"
    using Cons.prems(2) by (intro Cons.IH) simp_all
  have "set (handshake_promises s (op # ops)) \<subseteq> {h}"
    using rest Cons.prems(1) by (cases op) (simp_all add: handshake_in_flight)
  with rest step show ?case by (simp add: run_ops_def)
qed

lemma three_handshakes_before_completion: "\<forall>op \<in> set three_handshakes. before_completion op"
  by (simp add: three_handshakes_def other_response_def INITIALIZE_ID_def)

lemma three_handshakes_promises: "handshake_promises new_client three_handshakes = [0, 0, 0]"
  by (simp add: three_handshakes_def new_client_def performHandshake_def call_def handle_def
      other_response_def INITIALIZE_ID_def Let_def)

text \<open>
  Over any run of \<open>performHandshake\<close> callers, \<open>call\<close>s and delivered messages in which no
  message under the reserved id arrives, at most one request with the reserved id is sent
  beyond those already out, none when a handshake was already in flight, and all
  \<open>performHandshake\<close> callers wait for the same promise.
\<close>

lemma handshake_shared_while_reserved_id_silent:
  assumes "\<forall>op \<in> set ops. before_completion op"
  shows "initialize_requests (run_ops s ops) \<le>
           initialize_requests s + (if initializePromise s = None then 1 else 0)
       \<and> (\<forall>h1 \<in> set (handshake_promises s ops). \<forall>h2 \<in> set (handshake_promises s ops). h1 = h2)
       \<and> (\<forall>h. initializePromise s = Some h \<longrightarrow>
             initialize_requests (run_ops s ops) = initialize_requests s
             \<and> set (handshake_promises s ops) \<subseteq> {h})"
  using assms
proof (induction ops arbitrary: s)
  case Nil
  then show ?case by (simp add: run_ops_def)
next
  case (Cons op ops)
  show ?case
  proof (cases "initializePromise s")
    case (Some h)
    from in_flight_run [OF Some Cons.prems]
    show ?thesis using Some by auto
  next
    case None
    show ?thesis
    proof (cases op)
      case (Handshake n v)
      let ?s' = "apply_op s op"
      have started: "initializePromise ?s' = Some (next_promise s)"
        using None Handshake by (simp add: handshake_fresh)
      have count: "initialize_requests ?s' = initialize_requests s + 1"
        using None Handshake
        by (simp add: handshake_fresh initialize_requests_def initialize_request_id)
      have "initializePromise (run_ops ?s' ops) = Some (next_promise s)
          \<and> initialize_requests (run_ops ?s' ops) = initialize_requests ?s'
          \<and> set (handshake_promises ?s' ops) \<subseteq> {next_promise s}"
        using started Cons.prems by (intro in_flight_run) simp_all
      then show ?thesis
        using None Handshake count
        by (auto simp add: run_ops_def handshake_fresh)
    next
      case (Call u m p)
      let ?s' = "apply_op s op"
      have "initializePromise ?s' = None" "initialize_requests ?s' = initialize_requests s"
        using None Call Cons.prems
        by (simp_all add: call_keeps_handshake call_initialize_requests)
      moreover have "initialize_requests (run_ops ?s' ops) \<le>
           initialize_requests ?s' + (if initializePromise ?s' = None then 1 else 0)
       \<and> (\<forall>h1 \<in> set (handshake_promises ?s' ops). \<forall>h2 \<in> set (handshake_promises ?s' ops). h1 = h2)"
        using Cons.IH [of ?s'] Cons.prems by simp
      ultimately show ?thesis
        using None Call by (simp add: run_ops_def)
    next
      case (Deliver m)
      let ?s' = "apply_op s op"
      have "initializePromise ?s' = None" "initialize_requests ?s' = initialize_requests s"
        using None Deliver Cons.prems
        by (simp_all add: handle_keeps_handshake handle_initialize_requests)
      moreover have "initialize_requests (run_ops ?s' ops) \<le>
           initialize_requests ?s' + (if initializePromise ?s' = None then 1 else 0)
       \<and> (\<forall>h1 \<in> set (handshake_promises ?s' ops). \<forall>h2 \<in> set (handshake_promises ?s' ops). h1 = h2)"
        using Cons.IH [of ?s'] Cons.prems by simp
      ultimately show ?thesis
        using None Deliver by (simp add: run_ops_def)
    qed
  qed
qed


lemma three_handshakes_share:
  "initialize_requests (run_ops new_client three_handshakes) \<le> 1
   \<and> handshake_promises new_client three_handshakes = [0, 0, 0]"
proof -
  have "initialize_requests new_client = 0" "initializePromise new_client = None"
    by (simp_all add: initialize_requests_def new_client_def)
  then show ?thesis
    using handshake_shared_while_reserved_id_silent
        [OF three_handshakes_before_completion, of new_client]
      three_handshakes_promises
    by simp
qed

lemma handshaking_state:
  "handshaking =
     \<lparr>pending = [], initializePromise = Some 0, resolveInitialize = Some 0,
      rejectInitialize = Some 0, closed = False, settled = [], awaiting = [0],
      next_promise = 1, sent = [initialize_request ''mcp-client'' ''0.1.0''],
      transport_closes = 0\<rparr>"
  by (simp add: handshaking_def performHandshake_def new_client_def)

text \<open>
  C9 at a run the client can see. The first \<open>performHandshake\<close> sends its request and
  waits on promise 0. A message under the reserved id arrives whose result is \<open>null\<close> and
  which has no error: \<open>handle\<close> settles nothing, yet clears \<open>initializePromise\<close>. The first
  handshake has not completed, its promise is still pending, but the second
  \<open>performHandshake\<close> sends a second \<open>initialize\<close> request and waits on another promise:
  two requests, two pending outcomes.
\<close>

theorem empty_response_restarts_handshake:
  "initialize_requests (run_ops new_client reset_between_handshakes) = 2
   \<and> handshake_promises new_client reset_between_handshakes = [0, 1]
   \<and> settled (run_ops new_client reset_between_handshakes) = []
   \<and> promise_state (run_ops new_client reset_between_handshakes) 0 = None
   \<and> promise_state (run_ops new_client reset_between_handshakes) 1 = None"
proof -
  have first: "fst (performHandshake new_client ''mcp-client'' ''0.1.0'') = handshaking"
    by (simp add: handshaking_def)
  have reset: "handle handshaking empty_initialize_response =
                 handshaking\<lparr>resolveInitialize := None, rejectInitialize := None,
                   initializePromise := None\<rparr>"
    by (simp add: handle_def handshaking_state empty_initialize_response_def
        clear_initialize_def)
  have second: "performHandshake
                  (handshaking\<lparr>resolveInitialize := None, rejectInitialize := None,
                     initializePromise := None\<rparr>) ''mcp-client'' ''0.1.0'' =
                (handshaking\<lparr>initializePromise := Some 1, resolveInitialize := Some 1,
                   rejectInitialize := Some 1, next_promise := 2,
                   sent := [initialize_request ''mcp-client'' ''0.1.0'',
                            initialize_request ''mcp-client'' ''0.1.0''],
                   awaiting := [0, 1]\<rparr>, 1)"
    by (simp add: performHandshake_def handshaking_state)
  have zero: "snd (performHandshake new_client ''mcp-client'' ''0.1.0'') = 0"
    by (simp add: performHandshake_def new_client_def)
  have run: "run_ops new_client reset_between_handshakes =
               handshaking\<lparr>initializePromise := Some 1, resolveInitialize := Some 1,
                 rejectInitialize := Some 1, next_promise := 2,
                 sent := [initialize_request ''mcp-client'' ''0.1.0'',
                          initialize_request ''mcp-client'' ''0.1.0''],
                 awaiting := [0, 1]\<rparr>"
    by (simp add: reset_between_handshakes_def run_ops_def first reset second)
  have promises: "handshake_promises new_client reset_between_handshakes = [0, 1]"
    by (simp add: reset_between_handshakes_def first reset second zero)
  have unsettled: "settled handshaking = []"
    by (simp add: handshaking_state)
  show ?thesis
    unfolding run promises
    using unsettled
    by (simp add: initialize_requests_def initialize_request_id promise_state_def)
qed

section \<open>Closing the session\<close>















section \<open>Calls and their responses\<close>

text \<open>Every operation of the client keeps its promises allocated.\<close>

lemma map_set_values: "snd ` set (map_set kvs k v) \<subseteq> insert v (snd ` set kvs)"
  by (induction kvs k v rule: map_set.induct) auto

lemma allocated_call: "allocated s \<Longrightarrow> allocated (fst (call s u m p))"
  using map_set_values [of "pending s" u "next_promise s"]
  by (fastforce simp add: allocated_def call_def Let_def less_Suc_eq)

lemma allocated_performHandshake: "allocated s \<Longrightarrow> allocated (fst (performHandshake s n v))"
  by (auto simp add: allocated_def performHandshake_def Let_def less_Suc_eq split: option.splits)

lemma handle_next_promise: "next_promise (handle s m) = next_promise s"
  by (simp add: handle_def clear_initialize_def resume_fulfilled_def resume_rejected_def
      split: option.splits bool.splits)

lemma handle_pending_values: "snd ` set (pending (handle s m)) \<subseteq> snd ` set (pending s)"
  by (auto simp add: handle_def clear_initialize_def resume_fulfilled_def resume_rejected_def
      map_delete_def split: option.splits bool.splits)

lemma handle_initialize_handles:
  "set_option (resolveInitialize (handle s m)) \<subseteq> set_option (resolveInitialize s)"
  "set_option (rejectInitialize (handle s m)) \<subseteq> set_option (rejectInitialize s)"
  by (auto simp add: handle_def clear_initialize_def resume_fulfilled_def resume_rejected_def
      split: option.splits bool.splits)

lemma handle_settled_handles:
  "fst ` set (settled (handle s m)) \<subseteq>
     fst ` set (settled s) \<union> snd ` set (pending s) \<union>
     set_option (resolveInitialize s) \<union> set_option (rejectInitialize s)"
proof -
  have get: "\<And>i h. map_of (pending s) i = Some h \<Longrightarrow> h \<in> snd ` set (pending s)"
    by (force dest: map_of_SomeD)
  show ?thesis
    using get
    by (auto simp add: handle_def clear_initialize_def resume_fulfilled_def resume_rejected_def
        call_callback_def split: option.splits bool.splits)
qed

lemma allocated_handle:
  assumes "allocated s"
  shows "allocated (handle s m)"
proof -
  have old: "\<And>h. h \<in> fst ` set (settled s) \<union> snd ` set (pending s) \<union>
          set_option (resolveInitialize s) \<union> set_option (rejectInitialize s) \<Longrightarrow>
          h < next_promise s"
    using assms by (auto simp add: allocated_def)
  have a: "\<And>h. h \<in> snd ` set (pending (handle s m)) \<Longrightarrow> h < next_promise s"
    using handle_pending_values [of s m] old by blast
  have b: "\<And>h. h \<in> fst ` set (settled (handle s m)) \<Longrightarrow> h < next_promise s"
    using handle_settled_handles [of s m] old by blast
  have c: "\<And>h. h \<in> set_option (resolveInitialize (handle s m)) \<union>
                   set_option (rejectInitialize (handle s m)) \<Longrightarrow> h < next_promise s"
    using handle_initialize_handles [of s m] old by blast
  show ?thesis
    unfolding allocated_def handle_next_promise
    using a b c by (intro conjI ballI)
qed

lemma allocated_close: "allocated s \<Longrightarrow> allocated (close s)"
  by (auto simp add: allocated_def close_def Let_def clear_initialize_def resume_rejected_def
      call_callback_def split: option.splits)

lemma allocated_run: "allocated s \<Longrightarrow> allocated (run_ops s ops)"
proof (induction ops arbitrary: s)
  case Nil
  then show ?case by (simp add: run_ops_def)
next
  case (Cons op ops)
  have "allocated (apply_op s op)"
    using Cons.prems
    by (cases op) (simp_all add: allocated_call allocated_performHandshake allocated_handle)
  with Cons.IH show ?case by (simp add: run_ops_def)
qed

lemma map_of_map_set: "map_of (map_set kvs k v) = (map_of kvs)(k \<mapsto> v)"
  by (induction kvs k v rule: map_set.induct) auto

lemma map_of_map_delete: "map_of (map_delete kvs k) = (map_of kvs)(k := None)"
  by (induction kvs) (auto simp add: map_delete_def)

lemma unsettled_iff: "promise_state s h = None \<longleftrightarrow> h \<notin> fst ` set (settled s)"
  by (simp add: promise_state_def map_of_eq_None_iff)

lemma call_sends:
  "sent (fst (call s u rpc_method params)) =
     sent s @ [\<lparr>msg_id = Some u, msg_method = Some rpc_method, msg_params = params,
               msg_result = None, msg_error = None\<rparr>]"
  by (simp add: call_def Let_def)

lemma call_promise: "snd (call s u rpc_method params) = next_promise s"
  by (simp add: call_def Let_def)

lemma call_waiting:
  assumes "allocated s" and "\<not> closed s"
  shows "waiting_on (fst (call s u rpc_method params)) u (next_promise s)"
proof -
  have below: "\<And>k h'. map_of (pending s) k = Some h' \<Longrightarrow> h' < next_promise s"
  proof -
    fix k h' assume "map_of (pending s) k = Some h'"
    then have "(k, h') \<in> set (pending s)" by (rule map_of_SomeD)
    then have "h' \<in> snd ` set (pending s)" by force
    with assms(1) show "h' < next_promise s" by (auto simp add: allocated_def)
  qed
  have "next_promise s \<notin> fst ` set (settled s)"
    using assms(1) by (auto simp add: allocated_def)
  moreover have "resolveInitialize s \<noteq> Some (next_promise s)"
    "rejectInitialize s \<noteq> Some (next_promise s)"
    using assms(1) by (auto simp add: allocated_def)
  ultimately show ?thesis
    using assms(2) below
    by (auto simp add: waiting_on_def call_def Let_def map_of_map_set)
qed

lemma handle_waiting:
  assumes "waiting_on s u h" and "msg_id m \<noteq> Some u"
  shows "waiting_on (handle s m) u h"
proof (cases "msg_id m = Some INITIALIZE_ID")
  case True
  then show ?thesis
    using assms
    by (auto simp add: waiting_on_def handle_def clear_initialize_def resume_fulfilled_def
        resume_rejected_def split: option.splits bool.splits)
next
  case False
  show ?thesis
  proof (cases "msg_id m")
    case None
    then show ?thesis using assms False by (simp add: handle_def waiting_on_def)
  next
    case (Some i)
    show ?thesis
    proof (cases "map_of (pending s) i")
      case None
      then show ?thesis using assms False Some by (simp add: handle_def waiting_on_def)
    next
      case (Some h')
      with assms \<open>msg_id m = Some i\<close> have "h' \<noteq> h"
        by (auto simp add: waiting_on_def)
      then have "fst (call_callback h' m) \<noteq> h"
        by (simp add: call_callback_def)
      then show ?thesis
        using assms False Some \<open>msg_id m = Some i\<close>
        by (auto simp add: handle_def waiting_on_def map_of_map_delete)
    qed
  qed
qed

lemma handle_all_waiting:
  assumes "waiting_on s u h" and "\<forall>m \<in> set ms. msg_id m \<noteq> Some u"
  shows "waiting_on (foldl handle s ms) u h"
  using assms
proof (induction ms arbitrary: s)
  case Nil
  then show ?case by simp
next
  case (Cons m ms)
  then have "waiting_on (handle s m) u h"
    by (simp add: handle_waiting)
  with Cons show ?case by simp
qed

lemma handle_matching:
  assumes "waiting_on s u h" and "u \<noteq> INITIALIZE_ID" and "msg_id r = Some u"
  shows "promise_state (handle s r) h = Some (snd (call_callback h r))"
proof -
  have "map_of (settled s) h = None"
    using assms(1) by (simp add: waiting_on_def map_of_eq_None_iff)
  moreover have "fst (call_callback h r) = h"
    by (simp add: call_callback_def)
  ultimately show ?thesis
    using assms
    by (cases "call_callback h r")
       (auto simp add: handle_def waiting_on_def promise_state_def map_add_def)
qed

lemma settled_grows: "\<exists>more. settled (handle s m) = settled s @ more"
  by (auto simp add: handle_def clear_initialize_def resume_fulfilled_def resume_rejected_def
      split: option.splits bool.splits)

lemma settlement_final:
  assumes "promise_state s h = Some v"
  shows "promise_state (foldl handle s ms) h = Some v"
  using assms
proof (induction ms arbitrary: s)
  case Nil
  then show ?case by simp
next
  case (Cons m ms)
  obtain more where "settled (handle s m) = settled s @ more"
    using settled_grows by blast
  with Cons.prems have "promise_state (handle s m) h = Some v"
    by (simp add: promise_state_def map_add_def)
  then show ?case using Cons.IH by simp
qed

lemma new_client_allocated: "allocated new_client"
  by (simp add: allocated_def new_client_def)

lemma sample_ids:
  "msg_id other_response \<noteq> Some ''7d4c''"
  "msg_id remote_error_response = Some ''7d4c''"
  "msg_id null_error_response = Some ''7d4c''"
  "''7d4c'' \<noteq> INITIALIZE_ID"
  by (simp_all add: other_response_def remote_error_response_def null_error_response_def
      INITIALIZE_ID_def)

text \<open>
  C8, as the code has it. \<open>call\<close> sends a request under the id \<open>uuid()\<close> gave it and
  registers its callback under that id. While the client is open and no message with that
  id is handled the promise stays pending, whatever else arrives. The message with that id
  settles it: when its \<open>error\<close> is truthy the promise is rejected with the remote message and
  code, otherwise it is fulfilled with the whole response. Later messages do not change it.
\<close>

theorem call_settles_on_matching_response:
  assumes "allocated s" and "\<not> closed s" and "uuid \<noteq> INITIALIZE_ID"
    and "\<forall>m \<in> set earlier. msg_id m \<noteq> Some uuid"
    and "msg_id response = Some uuid"
  shows "let s1 = fst (call s uuid rpc_method params);
             h = snd (call s uuid rpc_method params);
             s2 = foldl handle s1 earlier;
             s3 = handle s2 response
         in sent s1 = sent s @ [\<lparr>msg_id = Some uuid, msg_method = Some rpc_method,
                                  msg_params = params, msg_result = None, msg_error = None\<rparr>]
          \<and> map_of (pending s1) uuid = Some h
          \<and> promise_state s2 h = None
          \<and> (truthy (msg_error response) \<longrightarrow>
               promise_state s3 h =
                 Some (Rejected (RpcFailure (property (msg_error response) ''message'')
                                            (property (msg_error response) ''code''))))
          \<and> (\<not> truthy (msg_error response) \<longrightarrow> promise_state s3 h = Some (Fulfilled response))
          \<and> promise_state (foldl handle s3 later) h = promise_state s3 h"
proof -
  let ?s1 = "fst (call s uuid rpc_method params)"
  let ?h = "next_promise s"
  let ?s2 = "foldl handle ?s1 earlier"
  let ?s3 = "handle ?s2 response"
  have w1: "waiting_on ?s1 uuid ?h"
    using assms(1,2) by (rule call_waiting)
  then have w2: "waiting_on ?s2 uuid ?h"
    using assms(4) by (rule handle_all_waiting)
  have settled3: "promise_state ?s3 ?h = Some (snd (call_callback ?h response))"
    using w2 assms(3,5) by (rule handle_matching)
  then have final: "promise_state (foldl handle ?s3 later) ?h = promise_state ?s3 ?h"
    by (simp add: settlement_final)
  have "map_of (pending ?s1) uuid = Some ?h"
    using w1 by (simp add: waiting_on_def)
  moreover have "promise_state ?s2 ?h = None"
    using w2 by (simp add: waiting_on_def unsettled_iff)
  ultimately show ?thesis
    using settled3 final
    by (simp add: Let_def call_promise call_sends call_callback_def)
qed


theorem call_settles_on_matching_response_witness:
  "promise_state (handle (fst (call new_client ''7d4c'' ''tools/call'' None)) other_response) 0 = None
   \<and> promise_state
        (handle (handle (fst (call new_client ''7d4c'' ''tools/call'' None)) other_response)
           remote_error_response) 0 =
      Some (Rejected (RpcFailure (Some (JStr ''Method not found'')) (Some (JNum (- 32601)))))
   \<and> promise_state
        (handle
          (handle (handle (fst (call new_client ''7d4c'' ''tools/call'' None)) other_response)
             remote_error_response)
          null_error_response) 0 =
      Some (Rejected (RpcFailure (Some (JStr ''Method not found'')) (Some (JNum (- 32601)))))"
proof -
  have open_client: "\<not> closed new_client"
    by (simp add: new_client_def)
  have earlier: "\<forall>m \<in> set [other_response]. msg_id m \<noteq> Some ''7d4c''"
    by (simp add: sample_ids)
  have err: "truthy (msg_error remote_error_response)"
    "property (msg_error remote_error_response) ''message'' = Some (JStr ''Method not found'')"
    "property (msg_error remote_error_response) ''code'' = Some (JNum (- 32601))"
    by (simp_all add: remote_error_response_def)
  have "next_promise new_client = 0"
    by (simp add: new_client_def)
  then show ?thesis
    using call_settles_on_matching_response
      [OF new_client_allocated open_client sample_ids(4) earlier sample_ids(2),
       where rpc_method = "''tools/call''" and params = None and later = "[null_error_response]"]
    by (simp add: Let_def call_promise err)
qed

text \<open>
  C8 as stated fails: a response that carries \<open>error: null\<close> beside its result, as a
  JSON-RPC 1.0 peer sends it, has an error field, yet the call is fulfilled, and with the
  response object, not with the result payload.
\<close>

theorem null_error_counterexample:
  "msg_id null_error_response = Some ''7d4c''
   \<and> msg_error null_error_response = Some JNull
   \<and> promise_state
        (handle (fst (call new_client ''7d4c'' ''tools/call'' None)) null_error_response) 0 =
      Some (Fulfilled null_error_response)"
proof -
  have "fst (call new_client ''7d4c'' ''tools/call'' None) =
          new_client\<lparr>pending := [(''7d4c'', 0)], next_promise := 1,
            sent := [\<lparr>msg_id = Some ''7d4c'', msg_method = Some ''tools/call'',
                      msg_params = None, msg_result = None, msg_error = None\<rparr>]\<rparr>"
    by (simp add: call_def new_client_def)
  moreover have "call_callback 0 null_error_response = (0, Fulfilled null_error_response)"
    by (simp add: call_callback_def null_error_response_def)
  ultimately show ?thesis
    by (simp add: sample_ids handle_def promise_state_def new_client_def
        null_error_response_def [THEN arg_cong, of msg_error] map_delete_def)
qed

section \<open>Background execution\<close>







end
